theory Spec2Isabelle
  imports Main
begin

section \<open>The profile store (storage.js, class ProfileStorage)\<close>

text \<open>
  Identifiers are the hex strings that \<^verbatim>\<open>generateId\<close> returns, profiles and encoded
  buffers are opaque strings. Timestamps and durations are JavaScript numbers holding a
  count of milliseconds; the model takes them as integers.
\<close>

type_synonym ident = string
type_synonym buffer = string
type_synonym profile = string

text \<open>The object \<^verbatim>\<open>{ cpu, heap }\<close> that the middleware hands to the store.\<close>

record profile_data =
  cpu :: buffer
  heap :: buffer

text \<open>
  A value of the \<^verbatim>\<open>profiles\<close> map: \<^verbatim>\<open>{ data, expiresAt, timeout }\<close>. The field
  \<^verbatim>\<open>timeout\<close> holds the handle that \<^verbatim>\<open>setTimeout\<close> returned.
\<close>

record entry =
  data :: profile_data
  expiresAt :: int
  timeout :: nat

text \<open>A value of the \<^verbatim>\<open>inProgress\<close> map: \<^verbatim>\<open>{ duration, startTime }\<close>.\<close>

record metadata =
  duration :: int
  startTime :: int

subsection \<open>JavaScript maps\<close>

text \<open>
  A JavaScript \<^verbatim>\<open>Map\<close> iterates in insertion order, and \<^verbatim>\<open>set\<close> on a key already
  present keeps the key's position. The model is an association list in that order.
\<close>

fun Map_set :: "'k \<Rightarrow> 'v \<Rightarrow> ('k \<times> 'v) list \<Rightarrow> ('k \<times> 'v) list" where
  "Map_set k v [] = [(k, v)]"
| "Map_set k v (kv # m) = (if fst kv = k then (k, v) # m else kv # Map_set k v m)"

definition Map_delete :: "'k \<Rightarrow> ('k \<times> 'v) list \<Rightarrow> ('k \<times> 'v) list" where
  "Map_delete k m = filter (\<lambda>kv. fst kv \<noteq> k) m"

definition Map_get :: "'k \<Rightarrow> ('k \<times> 'v) list \<Rightarrow> 'v option" where
  "Map_get k m = map_of m k"

definition Map_has :: "'k \<Rightarrow> ('k \<times> 'v) list \<Rightarrow> bool" where
  "Map_has k m = (Map_get k m \<noteq> None)"

definition Map_keys :: "('k \<times> 'v) list \<Rightarrow> 'k list" where
  "Map_keys m = map fst m"

subsection \<open>The store and the timers of the runtime\<close>

text \<open>
  The fields of a \<^verbatim>\<open>ProfileStorage\<close> object, together with the table of pending
  timers of the JavaScript runtime and the next free timer handle. A pending timer is
  \<open>handle \<mapsto> (due, id)\<close>: the callback of every timer that the store creates is
  \<^verbatim>\<open>() => this.profiles.delete(id)\<close>, so the identifier it captured determines it.
\<close>

record state =
  maxProfiles :: int
  profileTTL :: int
  profiles :: "(ident \<times> entry) list"
  inProgress :: "(ident \<times> metadata) list"
  timers :: "nat \<rightharpoonup> int \<times> ident"
  nextTimer :: nat

text \<open>
  \<^verbatim>\<open>options.x || d\<close>: the default replaces a missing option and a falsy one, and the
  only falsy integer is 0.
\<close>

definition or_default :: "int option \<Rightarrow> int \<Rightarrow> int" where
  "or_default v d = (case v of None \<Rightarrow> d | Some n \<Rightarrow> if n = 0 then d else n)"

definition ProfileStorage :: "int option \<Rightarrow> int option \<Rightarrow> state" where
  "ProfileStorage optMaxProfiles optProfileTTL =
     \<lparr> maxProfiles = or_default optMaxProfiles 10,
       profileTTL = or_default optProfileTTL (5 * 60 * 1000),
       profiles = [],
       inProgress = [],
       timers = Map.empty,
       nextTimer = 0 \<rparr>"

text \<open>
  \<^verbatim>\<open>setTimeout(callback, delay)\<close> of Node.js: a delay below 1 or above 2147483647 is
  set to 1. The timer becomes due \<open>delay\<close> milliseconds after the call; the result is the
  new handle.
\<close>

definition timerDelay :: "int \<Rightarrow> int" where
  "timerDelay delay = (if delay < 1 \<or> 2147483647 < delay then 1 else delay)"

definition setTimeout :: "int \<Rightarrow> ident \<Rightarrow> int \<Rightarrow> state \<Rightarrow> nat \<times> state" where
  "setTimeout now target delay s =
     (nextTimer s,
      s\<lparr> timers := (timers s)(nextTimer s \<mapsto> (now + timerDelay delay, target)),
         nextTimer := Suc (nextTimer s) \<rparr>)"

definition clearTimeout :: "nat \<Rightarrow> state \<Rightarrow> state" where
  "clearTimeout h s = s\<lparr> timers := (timers s)(h := None) \<rparr>"

text \<open>
  The runtime runs the callback of a pending timer once, at a time \<open>now\<close> not before the
  timer is due; the callback deletes the identifier from \<^verbatim>\<open>profiles\<close>. A handle that is
  not pending, or not yet due, does nothing.
\<close>

definition fireTimer :: "int \<Rightarrow> nat \<Rightarrow> state \<Rightarrow> state" where
  "fireTimer now h s =
     (case timers s h of
        None \<Rightarrow> s
      | Some (due, target) \<Rightarrow>
          if due \<le> now
          then s\<lparr> timers := (timers s)(h := None),
                  profiles := Map_delete target (profiles s) \<rparr>
          else s)"

subsection \<open>The methods\<close>

text \<open>Every method that reads \<^verbatim>\<open>Date.now()\<close> takes the time as \<open>now\<close>.\<close>

definition markInProgress :: "int \<Rightarrow> ident \<Rightarrow> int \<Rightarrow> state \<Rightarrow> state" where
  "markInProgress now i d s =
     s\<lparr> inProgress := Map_set i \<lparr> duration = d, startTime = now \<rparr> (inProgress s) \<rparr>"

definition isInProgress :: "ident \<Rightarrow> state \<Rightarrow> bool" where
  "isInProgress i s = Map_has i (inProgress s)"

definition getInProgressMetadata :: "ident \<Rightarrow> state \<Rightarrow> metadata option" where
  "getInProgressMetadata i s = Map_get i (inProgress s)"

text \<open>
  The eviction step of \<^verbatim>\<open>storeProfile\<close>: \<^verbatim>\<open>this.profiles.keys().next().value\<close> is the
  first key in insertion order, and \<^verbatim>\<open>undefined\<close> on an empty map, where the
  \<^verbatim>\<open>delete\<close> removes nothing.
\<close>

definition evictOldest :: "state \<Rightarrow> state" where
  "evictOldest s =
     (if int (length (profiles s)) \<ge> maxProfiles s
      then (case profiles s of
              [] \<Rightarrow> s
            | kv # _ \<Rightarrow> s\<lparr> profiles := Map_delete (fst kv) (profiles s) \<rparr>)
      else s)"

definition storeProfile :: "int \<Rightarrow> ident \<Rightarrow> profile_data \<Rightarrow> state \<Rightarrow> state" where
  "storeProfile now i d s =
     (let s1 = s\<lparr> inProgress := Map_delete i (inProgress s) \<rparr>;
          s2 = evictOldest s1;
          (h, s3) = setTimeout now i (profileTTL s2) s2
      in s3\<lparr> profiles :=
               Map_set i \<lparr> data = d, expiresAt = now + profileTTL s3, timeout = h \<rparr>
                 (profiles s3) \<rparr>)"

definition getProfile :: "int \<Rightarrow> ident \<Rightarrow> state \<Rightarrow> profile_data option \<times> state" where
  "getProfile now i s =
     (case Map_get i (profiles s) of
        None \<Rightarrow> (None, s)
      | Some e \<Rightarrow>
          if now > expiresAt e
          then (None, s\<lparr> profiles := Map_delete i (profiles s) \<rparr>)
          else (Some (data e), s))"

definition deleteProfile :: "ident \<Rightarrow> state \<Rightarrow> state" where
  "deleteProfile i s =
     (let s1 = (case Map_get i (profiles s) of
                  None \<Rightarrow> s
                | Some e \<Rightarrow> clearTimeout (timeout e) s)
      in s1\<lparr> profiles := Map_delete i (profiles s1) \<rparr>)"

text \<open>The loop of \<^verbatim>\<open>cleanup\<close> over \<^verbatim>\<open>this.profiles.values()\<close>.\<close>

fun clearTimeouts :: "(ident \<times> entry) list \<Rightarrow> state \<Rightarrow> state" where
  "clearTimeouts [] s = s"
| "clearTimeouts (kv # m) s = clearTimeouts m (clearTimeout (timeout (snd kv)) s)"

definition cleanup :: "state \<Rightarrow> state" where
  "cleanup s = (clearTimeouts (profiles s) s)\<lparr> profiles := [], inProgress := [] \<rparr>"

section \<open>The middleware (index.js, createFlamegraphMiddleware)\<close>

text \<open>
  The recognised options; \<open>None\<close> is an option left \<^verbatim>\<open>undefined\<close>, which the
  destructuring defaults replace. The heap sampling interval and the colours configure the
  profiler and the renderer only.
\<close>

record options =
  optBasePath :: "string option"
  optMaxDuration :: "int option"
  optDefaultDuration :: "int option"
  optMaxProfiles :: "int option"
  optProfileTTL :: "int option"

record config =
  basePath :: string
  maxDuration :: int
  defaultDuration :: int

definition createConfig :: "options \<Rightarrow> config" where
  "createConfig opts =
     \<lparr> basePath = (case optBasePath opts of None \<Rightarrow> ''/flamegraph'' | Some b \<Rightarrow> b),
       maxDuration = (case optMaxDuration opts of None \<Rightarrow> 60000 | Some n \<Rightarrow> n),
       defaultDuration = (case optDefaultDuration opts of None \<Rightarrow> 10000 | Some n \<Rightarrow> n) \<rparr>"

definition createStorage :: "options \<Rightarrow> state" where
  "createStorage opts =
     ProfileStorage
       (Some (case optMaxProfiles opts of None \<Rightarrow> 10 | Some n \<Rightarrow> n))
       (Some (case optProfileTTL opts of None \<Rightarrow> 5 * 60 * 1000 | Some n \<Rightarrow> n))"

text \<open>
  The collaborators that are not code of the repository: the package
  \<^verbatim>\<open>parse-duration\<close> (\<open>None\<close> is its \<^verbatim>\<open>null\<close>), the built-in \<^verbatim>\<open>parseInt(_, 10)\<close>
  (\<open>None\<close> is \<^verbatim>\<open>NaN\<close>), the encoder of the profiler and the renderer of the results page
  (\<open>None\<close>: the call throws or its promise rejects).
\<close>

record env =
  parseDuration :: "string \<Rightarrow> int option"
  parseInt :: "string \<Rightarrow> int option"
  encodeProfile :: "profile \<Rightarrow> buffer option"
  generateResultsPage :: "profile_data \<Rightarrow> string option"

text \<open>The messages passed to \<^verbatim>\<open>sendError\<close>, in the order of the source.\<close>

datatype message =
    NotFound
  | InvalidDuration
  | MustBeGreaterThanZero
  | ExceedsMaximum int
  | FailedToStart
  | BeingProcessed
  | NotFoundOrExpired
  | FailedToGenerate

text \<open>
  What a page generator was called with: \<^verbatim>\<open>generateProgressPage(profileId, duration,
  basePath)\<close>, the markup of the results page, \<^verbatim>\<open>generateErrorPage(message,
  statusCode)\<close>.
\<close>

datatype page =
    ProgressPage ident int string
  | ResultsPage string
  | ErrorPage message nat

text \<open>
  What the middleware does with a request: it calls \<^verbatim>\<open>next()\<close> and leaves the response
  alone, or it writes a status and a page to the response.
\<close>

datatype outcome = CallNext | Respond nat page

definition sendError :: "message \<Rightarrow> nat \<Rightarrow> outcome" where
  "sendError msg statusCode = Respond statusCode (ErrorPage msg statusCode)"

text \<open>
  The first part of \<^verbatim>\<open>handleStartProfiling\<close>: the duration, or the response that
  rejects the parameter. An empty parameter is falsy and takes the default.
\<close>

definition queryDuration :: "config \<Rightarrow> env \<Rightarrow> string option \<Rightarrow> outcome + int" where
  "queryDuration cfg e q =
     (case q of
        None \<Rightarrow> Inr (defaultDuration cfg)
      | Some str \<Rightarrow>
          if str = [] then Inr (defaultDuration cfg)
          else (case parseDuration e str of
                  Some d \<Rightarrow> Inr d
                | None \<Rightarrow>
                    (case parseInt e str of
                       None \<Rightarrow> Inl (sendError InvalidDuration 400)
                     | Some d \<Rightarrow> Inr d)))"

text \<open>
  \<^verbatim>\<open>handleStartProfiling\<close>; \<open>newId\<close> is the identifier that \<^verbatim>\<open>storage.generateId()\<close>
  returns when it is called. The third component is the background collection that the
  handler launches without awaiting it, if any.
\<close>

definition handleStartProfiling ::
  "config \<Rightarrow> env \<Rightarrow> int \<Rightarrow> ident \<Rightarrow> string option \<Rightarrow> state
     \<Rightarrow> outcome \<times> state \<times> (ident \<times> int) option" where
  "handleStartProfiling cfg e now newId q s =
     (case queryDuration cfg e q of
        Inl rejected \<Rightarrow> (rejected, s, None)
      | Inr d \<Rightarrow>
          if d \<le> 0 then (sendError MustBeGreaterThanZero 400, s, None)
          else if d > maxDuration cfg
          then (sendError (ExceedsMaximum (maxDuration cfg)) 400, s, None)
          else (Respond 200 (ProgressPage newId d (basePath cfg)),
                markInProgress now newId d s,
                Some (newId, d)))"

text \<open>
  \<^verbatim>\<open>handleResultPage\<close>. Reading a field of the \<^verbatim>\<open>null\<close> that
  \<^verbatim>\<open>getInProgressMetadata\<close> may return throws, and so may the renderer; the
  \<^verbatim>\<open>catch\<close> answers both with 500.
\<close>

definition handleResultPage ::
  "config \<Rightarrow> env \<Rightarrow> int \<Rightarrow> ident \<Rightarrow> state \<Rightarrow> outcome \<times> state" where
  "handleResultPage cfg e now profileId s =
     (if isInProgress profileId s
      then (case getInProgressMetadata profileId s of
              None \<Rightarrow> (sendError FailedToGenerate 500, s)
            | Some m \<Rightarrow>
                (let elapsed = now - startTime m;
                     remaining = max 0 (duration m - elapsed)
                 in if remaining > 0
                    then (Respond 200 (ProgressPage profileId remaining (basePath cfg)), s)
                    else (sendError BeingProcessed 202, s)))
      else (case getProfile now profileId s of
              (None, s') \<Rightarrow> (sendError NotFoundOrExpired 404, s')
            | (Some profileData, s') \<Rightarrow>
                (case generateResultsPage e profileData of
                   None \<Rightarrow> (sendError FailedToGenerate 500, s')
                 | Some html \<Rightarrow> (Respond 200 (ResultsPage html), s'))))"

text \<open>
  The match of \<^verbatim>\<open>/^\/result\/([a-f0-9]+)$/\<close> on the sub-path: the captured identifier,
  if the sub-path is \<^verbatim>\<open>/result/\<close> followed by one or more characters of
  \<^verbatim>\<open>a-f\<close> and \<^verbatim>\<open>0-9\<close> and nothing else.
\<close>

definition isHexChar :: "char \<Rightarrow> bool" where
  "isHexChar c = (c \<in> set ''abcdef0123456789'')"

definition resultMatch :: "string \<Rightarrow> ident option" where
  "resultMatch subPath =
     (let rest = drop 8 subPath
      in if take 8 subPath = ''/result/'' \<and> rest \<noteq> [] \<and> list_all isHexChar rest
         then Some rest else None)"

text \<open>
  \<^verbatim>\<open>flamegraphMiddleware\<close>, on the path name and the \<^verbatim>\<open>duration\<close> query parameter
  that \<^verbatim>\<open>parseUrl\<close> extracted from the request.
\<close>

definition startsWith :: "string \<Rightarrow> string \<Rightarrow> bool" where
  "startsWith str p = (take (length p) str = p)"

definition flamegraphMiddleware ::
  "config \<Rightarrow> env \<Rightarrow> int \<Rightarrow> ident \<Rightarrow> string \<Rightarrow> string option \<Rightarrow> state
     \<Rightarrow> outcome \<times> state \<times> (ident \<times> int) option" where
  "flamegraphMiddleware cfg e now newId pathname q s =
     (if \<not> startsWith pathname (basePath cfg) then (CallNext, s, None)
      else
        (let sliced = drop (length (basePath cfg)) pathname;
             subPath = (if sliced = [] then ''/'' else sliced)
         in if subPath = ''/'' \<or> subPath = []
            then handleStartProfiling cfg e now newId q s
            else (case resultMatch subPath of
                    Some profileId \<Rightarrow>
                      (case handleResultPage cfg e now profileId s of
                         (out, s') \<Rightarrow> (out, s', None))
                  | None \<Rightarrow> (sendError NotFound 404, s, None))))"

text \<open>
  \<^verbatim>\<open>collectProfilesInBackground\<close>, run when the collection settles: the two arguments
  \<open>cpuProfile\<close> and \<open>heapProfile\<close> are what the CPU and the heap collection produced
  (\<open>None\<close>: it threw). Only when both collections and both encodings succeed is
  \<^verbatim>\<open>storeProfile\<close> called; the \<^verbatim>\<open>catch\<close> logs and changes nothing.
\<close>

definition collectProfilesInBackground ::
  "env \<Rightarrow> int \<Rightarrow> ident \<Rightarrow> profile option \<Rightarrow> profile option \<Rightarrow> state \<Rightarrow> state" where
  "collectProfilesInBackground e now profileId cpuProfile heapProfile s =
     (case (cpuProfile, heapProfile) of
        (Some c, Some h) \<Rightarrow>
          (case (encodeProfile e c, encodeProfile e h) of
             (Some cpuBuffer, Some heapBuffer) \<Rightarrow>
               storeProfile now profileId \<lparr> cpu = cpuBuffer, heap = heapBuffer \<rparr> s
           | _ \<Rightarrow> s)
      | _ \<Rightarrow> s)"

section \<open>Runs\<close>

subsection \<open>Calls on the store\<close>

text \<open>
  A history of the store is a list of timed steps: a call of one of its methods, or the
  runtime running the callback of a timer.
\<close>

datatype call =
    MarkInProgress ident int
  | StoreProfile ident profile_data
  | GetProfile ident
  | DeleteProfile ident
  | Cleanup
  | TimerFires nat

fun perform :: "state \<Rightarrow> int \<times> call \<Rightarrow> state" where
  "perform s (now, MarkInProgress i d) = markInProgress now i d s"
| "perform s (now, StoreProfile i d) = storeProfile now i d s"
| "perform s (now, GetProfile i) = snd (getProfile now i s)"
| "perform s (now, DeleteProfile i) = deleteProfile i s"
| "perform s (now, Cleanup) = cleanup s"
| "perform s (now, TimerFires h) = fireTimer now h s"

definition history :: "state \<Rightarrow> (int \<times> call) list \<Rightarrow> state" where
  "history s calls = foldl perform s calls"

subsection \<open>The server\<close>

text \<open>
  The middleware at work: the store, the clock, and the background collections that have
  been launched and have not settled yet.
\<close>

record server =
  storage :: state
  clock :: int
  collecting :: "ident list"

datatype event =
    Request string "string option" ident
  | Settles ident "profile option" "profile option"
  | Fires nat
  | Passes nat

text \<open>
  \<open>Request pathname q newId\<close> is a request, with the identifier that \<^verbatim>\<open>generateId\<close>
  returns if the request calls it; \<open>Settles i c h\<close> is the collection of session \<open>i\<close>
  settling with the given outcomes, possible only while that collection is outstanding;
  \<open>Fires h\<close> is the runtime running timer \<open>h\<close>; \<open>Passes n\<close> is \<open>n\<close> milliseconds going by.
\<close>

fun step :: "config \<Rightarrow> env \<Rightarrow> server \<Rightarrow> event \<Rightarrow> server" where
  "step cfg e w (Request pathname q newId) =
     (case flamegraphMiddleware cfg e (clock w) newId pathname q (storage w) of
        (out, s', launched) \<Rightarrow>
          w\<lparr> storage := s',
             collecting := (case launched of
                              None \<Rightarrow> collecting w
                            | Some (i, d) \<Rightarrow> collecting w @ [i]) \<rparr>)"
| "step cfg e w (Settles i c h) =
     (if i \<in> set (collecting w)
      then w\<lparr> storage := collectProfilesInBackground e (clock w) i c h (storage w),
              collecting := remove1 i (collecting w) \<rparr>
      else w)"
| "step cfg e w (Fires h) = w\<lparr> storage := fireTimer (clock w) h (storage w) \<rparr>"
| "step cfg e w (Passes n) = w\<lparr> clock := clock w + int n \<rparr>"

definition run :: "config \<Rightarrow> env \<Rightarrow> server \<Rightarrow> event list \<Rightarrow> server" where
  "run cfg e w evs = foldl (step cfg e) w evs"

definition start :: "options \<Rightarrow> int \<Rightarrow> server" where
  "start opts t = \<lparr> storage = createStorage opts, clock = t, collecting = [] \<rparr>"

text \<open>The identifiers that \<^verbatim>\<open>generateId\<close> has ready for the requests of a run.\<close>

fun generated :: "event list \<Rightarrow> ident list" where
  "generated [] = []"
| "generated (Request pathname q newId # evs) = newId # generated evs"
| "generated (ev # evs) = generated evs"

section \<open>The routes as the specification names them\<close>

text \<open>
  The start route is the base path or the base path followed by a slash; the result route
  is the base path, \<^verbatim>\<open>/result/\<close> and a non-empty identifier of lower-case hexadecimal
  digits.
\<close>

definition startRoute :: "config \<Rightarrow> string \<Rightarrow> bool" where
  "startRoute cfg pathname = (pathname = basePath cfg \<or> pathname = basePath cfg @ ''/'')"

definition resultRoute :: "config \<Rightarrow> string \<Rightarrow> bool" where
  "resultRoute cfg pathname =
     (let prefix = basePath cfg @ ''/result/'';
          rest = drop (length prefix) pathname
      in take (length prefix) pathname = prefix \<and> rest \<noteq> [] \<and> list_all isHexChar rest)"

section \<open>Configurations and collaborators of the examples\<close>

text \<open>
  No option set; the options of the middleware tests; the options of the tests of the
  store; a profile payload; an environment
  whose \<^verbatim>\<open>parseDuration\<close> knows the duration strings of the examples, whose
  \<^verbatim>\<open>parseInt\<close> finds no number, and whose encoder and renderer succeed.
\<close>

definition noOptions :: options where
  "noOptions = \<lparr> optBasePath = None, optMaxDuration = None, optDefaultDuration = None,
                  optMaxProfiles = None, optProfileTTL = None \<rparr>"

definition testOptions :: options where
  "testOptions = \<lparr> optBasePath = Some ''/flamegraph'', optMaxDuration = Some 500,
                    optDefaultDuration = Some 100, optMaxProfiles = None, optProfileTTL = None \<rparr>"

definition storeOptions :: options where
  "storeOptions = \<lparr> optBasePath = None, optMaxDuration = None, optDefaultDuration = None,
                     optMaxProfiles = Some 3, optProfileTTL = Some 1000 \<rparr>"

definition exampleData :: profile_data where
  "exampleData = \<lparr> cpu = ''cpu'', heap = ''heap'' \<rparr>"

fun exampleParseDuration :: "string \<Rightarrow> int option" where
  "exampleParseDuration str =
     (if str = ''30s'' then Some 30000
      else if str = ''5m'' then Some 300000
      else if str = ''1500'' then Some 1500
      else if str = ''1000'' then Some 1000
      else None)"

definition exampleEnv :: env where
  "exampleEnv = \<lparr> parseDuration = exampleParseDuration,
                   parseInt = (\<lambda>str. None),
                   encodeProfile = Some,
                   generateResultsPage = (\<lambda>d. Some (cpu d @ heap d)) \<rparr>"

section \<open>Properties of states and runs\<close>

text \<open>
  A store within its capacity: the capacity is at least 1, the map of completed records
  holds no more entries than the capacity, and no key twice.
\<close>

definition bounded :: "state \<Rightarrow> bool" where
  "bounded s \<longleftrightarrow> 1 \<le> maxProfiles s \<and> int (length (profiles s)) \<le> maxProfiles s \<and>
     distinct (map fst (profiles s))"

text \<open>
  What can take the record of \<open>i\<close> out of the map other than its expiration: a later
  \<^verbatim>\<open>storeProfile\<close> that overwrites it or whose eviction step picks it (the map is at
  capacity and \<open>i\<close> is its first key), a \<^verbatim>\<open>deleteProfile\<close> of \<open>i\<close>, and
  \<^verbatim>\<open>cleanup\<close>. A history retains the record of \<open>i\<close> up to time \<open>t\<close> when none of
  its calls does that, in the state in which the call is made, and none is later than \<open>t\<close>.
  Calls for other identifiers, reads and timer callbacks are all allowed.
\<close>

definition evicts :: "ident \<Rightarrow> state \<Rightarrow> bool" where
  "evicts i s =
     (int (length (profiles s)) \<ge> maxProfiles s \<and>
      (case profiles s of [] \<Rightarrow> False | kv # _ \<Rightarrow> fst kv = i))"

fun removes :: "ident \<Rightarrow> state \<Rightarrow> call \<Rightarrow> bool" where
  "removes i s (StoreProfile j d) = (j = i \<or> evicts i s)"
| "removes i s (DeleteProfile j) = (j = i)"
| "removes i s Cleanup = True"
| "removes i s (MarkInProgress j d) = False"
| "removes i s (GetProfile j) = False"
| "removes i s (TimerFires h) = False"

fun retained :: "int \<Rightarrow> ident \<Rightarrow> state \<Rightarrow> (int \<times> call) list \<Rightarrow> bool" where
  "retained t i s [] = True"
| "retained t i s (c # calls) =
     (fst c \<le> t \<and> \<not> removes i s (snd c) \<and> retained t i (perform s c) calls)"

text \<open>A history in which the identifier \<open>i\<close> is not stored again.\<close>

fun stores :: "ident \<Rightarrow> call \<Rightarrow> bool" where
  "stores i (StoreProfile j d) = (j = i)"
| "stores i (MarkInProgress j d) = False"
| "stores i (GetProfile j) = False"
| "stores i (DeleteProfile j) = False"
| "stores i Cleanup = False"
| "stores i (TimerFires h) = False"

definition notStoredAgain :: "ident \<Rightarrow> (int \<times> call) list \<Rightarrow> bool" where
  "notStoredAgain i calls = list_all (\<lambda>c. \<not> stores i (snd c)) calls"

text \<open>
  A collection that fails: the CPU collection or the heap collection threw, or the encoder
  threw on one of the two profiles.
\<close>

definition collectionFails :: "env \<Rightarrow> profile option \<Rightarrow> profile option \<Rightarrow> bool" where
  "collectionFails e cpuProfile heapProfile =
     (case (cpuProfile, heapProfile) of
        (Some c, Some h) \<Rightarrow> encodeProfile e c = None \<or> encodeProfile e h = None
      | _ \<Rightarrow> True)"

text \<open>
  The invariant of the server, for the set \<open>U\<close> of identifiers generated so far: both maps
  hold generated identifiers only; the outstanding collections are pairwise distinct, in
  progress and without a completed record; no identifier is in both maps.
\<close>

definition consistent :: "ident set \<Rightarrow> server \<Rightarrow> bool" where
  "consistent U w \<longleftrightarrow>
     (\<forall>k. Map_has k (inProgress (storage w)) \<longrightarrow> k \<in> U) \<and>
     (\<forall>k. Map_has k (profiles (storage w)) \<longrightarrow> k \<in> U) \<and>
     set (collecting w) \<subseteq> U \<and> distinct (collecting w) \<and>
     (\<forall>k \<in> set (collecting w).
        Map_has k (inProgress (storage w)) \<and> \<not> Map_has k (profiles (storage w))) \<and>
     (\<forall>k. \<not> (Map_has k (inProgress (storage w)) \<and> Map_has k (profiles (storage w))))"

text \<open>
  A session whose collection is over and which is in progress without a completed record.
\<close>

definition stuck :: "ident \<Rightarrow> server \<Rightarrow> bool" where
  "stuck i w \<longleftrightarrow> i \<notin> set (collecting w) \<and> Map_has i (inProgress (storage w)) \<and>
     \<not> Map_has i (profiles (storage w))"

section \<open>Facts about maps, the store and the routes\<close>

lemma map_of_Map_set: "map_of (Map_set k v m) = (map_of m)(k \<mapsto> v)"
  by (induction m) auto

lemma map_of_Map_delete: "map_of (Map_delete k m) = (map_of m)(k := None)"
  by (induction m) (auto simp: Map_delete_def)

lemma Map_get_Map_set: "Map_get j (Map_set k v m) = (if j = k then Some v else Map_get j m)"
  by (simp add: Map_get_def map_of_Map_set)

lemma Map_get_Map_delete: "Map_get j (Map_delete k m) = (if j = k then None else Map_get j m)"
  by (simp add: Map_get_def map_of_Map_delete)

lemma Map_has_keys: "Map_has k m \<longleftrightarrow> k \<in> fst ` set m"
  by (simp add: Map_has_def Map_get_def map_of_eq_None_iff)

lemma keys_Map_set: "fst ` set (Map_set k v m) = insert k (fst ` set m)"
  by (induction m) auto

lemma length_Map_delete: "length (Map_delete k m) \<le> length m"
  by (simp add: Map_delete_def)

lemma length_Map_set: "length (Map_set k v m) \<le> Suc (length m)"
  by (induction m) auto

lemma Map_set_fresh: "k \<notin> fst ` set m \<Longrightarrow> Map_set k v m = m @ [(k, v)]"
  by (induction m) auto

lemma Map_delete_absent: "k \<notin> fst ` set m \<Longrightarrow> Map_delete k m = m"
  by (induction m) (auto simp: Map_delete_def)

lemma Map_delete_first:
  "distinct (map fst (kv # m)) \<Longrightarrow> Map_delete (fst kv) (kv # m) = m"
  using Map_delete_absent [of "fst kv" m] by (simp add: Map_delete_def)

lemma distinct_Map_set: "distinct (map fst m) \<Longrightarrow> distinct (map fst (Map_set k v m))"
  by (induction m) (auto simp: keys_Map_set)

lemma distinct_Map_delete: "distinct (map fst m) \<Longrightarrow> distinct (map fst (Map_delete k m))"
  by (simp add: Map_delete_def distinct_map_filter)

lemma startsWith_split: "startsWith str p \<Longrightarrow> str = p @ drop (length p) str"
  by (metis append_take_drop_id startsWith_def)

lemma resultRoute_resultMatch:
  assumes "startsWith pathname (basePath cfg)"
  shows "resultRoute cfg pathname \<longleftrightarrow> resultMatch (drop (length (basePath cfg)) pathname) \<noteq> None"
proof -
  obtain r where r: "pathname = basePath cfg @ r"
    using startsWith_split [OF assms] by blast
  have "take (length (basePath cfg) + 8) (basePath cfg @ r) = basePath cfg @ take 8 r"
    by simp
  then show ?thesis
    by (simp add: r resultRoute_def resultMatch_def Let_def add.commute)
qed

lemma startRoute_sliced:
  assumes "startsWith pathname (basePath cfg)"
  shows "startRoute cfg pathname \<longleftrightarrow>
           drop (length (basePath cfg)) pathname = [] \<or> drop (length (basePath cfg)) pathname = ''/''"
proof -
  obtain r where r: "pathname = basePath cfg @ r"
    using startsWith_split [OF assms] by blast
  show ?thesis by (auto simp add: r startRoute_def)
qed

lemma evictOldest_fields:
  "timers (evictOldest s) = timers s" "nextTimer (evictOldest s) = nextTimer s"
  "profileTTL (evictOldest s) = profileTTL s" "maxProfiles (evictOldest s) = maxProfiles s"
  "inProgress (evictOldest s) = inProgress s"
  by (simp_all add: evictOldest_def split: list.splits)

lemma storeProfile_fields:
  "timers (storeProfile now i d s)
     = (timers s)(nextTimer s \<mapsto> (now + timerDelay (profileTTL s), i))"
  "nextTimer (storeProfile now i d s) = Suc (nextTimer s)"
  "profileTTL (storeProfile now i d s) = profileTTL s"
  "maxProfiles (storeProfile now i d s) = maxProfiles s"
  "inProgress (storeProfile now i d s) = Map_delete i (inProgress s)"
  by (simp_all add: storeProfile_def setTimeout_def Let_def evictOldest_fields)

lemma storeProfile_profiles:
  "profiles (storeProfile now i d s)
     = Map_set i \<lparr> data = d, expiresAt = now + profileTTL s, timeout = nextTimer s \<rparr>
         (profiles (evictOldest s))"
  by (simp add: storeProfile_def setTimeout_def Let_def evictOldest_fields evictOldest_def
      split: list.splits)

lemma storeProfile_entry:
  "Map_get i (profiles (storeProfile now i d s))
     = Some \<lparr> data = d, expiresAt = now + profileTTL s, timeout = nextTimer s \<rparr>"
  by (simp add: storeProfile_profiles Map_get_Map_set)

lemmas eval_defs = createConfig_def createStorage_def ProfileStorage_def or_default_def
  noOptions_def testOptions_def exampleData_def exampleEnv_def
  storeProfile_def evictOldest_def setTimeout_def timerDelay_def clearTimeout_def fireTimer_def
  getProfile_def deleteProfile_def cleanup_def markInProgress_def isInProgress_def
  getInProgressMetadata_def Map_delete_def Map_get_def Map_has_def Map_keys_def
  startsWith_def resultMatch_def isHexChar_def sendError_def startRoute_def resultRoute_def
  flamegraphMiddleware_def handleStartProfiling_def handleResultPage_def queryDuration_def
  collectProfilesInBackground_def Let_def

subsection \<open>The capacity\<close>

lemma evictOldest_cases:
  "profiles (evictOldest s) = profiles s \<or>
   (\<exists>kv m. profiles s = kv # m \<and> profiles (evictOldest s) = Map_delete (fst kv) (profiles s))"
  by (simp add: evictOldest_def split: list.splits)

lemma evictOldest_length: "length (profiles (evictOldest s)) \<le> length (profiles s)"
  using evictOldest_cases [of s] length_Map_delete [of _ "profiles s"] by auto

lemma evictOldest_full:
  assumes "1 \<le> maxProfiles s" and "maxProfiles s \<le> int (length (profiles s))"
  shows "length (profiles (evictOldest s)) < length (profiles s)"
proof (cases "profiles s")
  case Nil
  with assms show ?thesis by simp
next
  case (Cons kv m)
  have "length (filter (\<lambda>p. fst p \<noteq> fst kv) m) \<le> length m" by simp
  with Cons assms show ?thesis
    by (simp add: evictOldest_def Map_delete_def less_Suc_eq_le)
qed

lemma storeProfile_length:
  assumes "1 \<le> maxProfiles s" and "int (length (profiles s)) \<le> maxProfiles s"
  shows "int (length (profiles (storeProfile now i d s))) \<le> maxProfiles s"
proof (cases "maxProfiles s \<le> int (length (profiles s))")
  case True
  from evictOldest_full [OF assms(1) True]
  have "Suc (length (profiles (evictOldest s))) \<le> length (profiles s)" by simp
  moreover have "length (profiles (storeProfile now i d s)) \<le> Suc (length (profiles (evictOldest s)))"
    by (simp add: storeProfile_profiles length_Map_set)
  ultimately show ?thesis using assms(2) by linarith
next
  case False
  have "length (profiles (storeProfile now i d s)) \<le> Suc (length (profiles (evictOldest s)))"
    by (simp add: storeProfile_profiles length_Map_set)
  also have "\<dots> \<le> Suc (length (profiles s))"
    by (simp add: evictOldest_length)
  finally show ?thesis using False by linarith
qed

lemma evictOldest_distinct:
  "distinct (map fst (profiles s)) \<Longrightarrow> distinct (map fst (profiles (evictOldest s)))"
  unfolding evictOldest_def
  by (auto simp: distinct_Map_delete split: list.splits)

lemma clearTimeouts_fields:
  "profiles (clearTimeouts m s) = profiles s" "inProgress (clearTimeouts m s) = inProgress s"
  "maxProfiles (clearTimeouts m s) = maxProfiles s" "profileTTL (clearTimeouts m s) = profileTTL s"
  "nextTimer (clearTimeouts m s) = nextTimer s"
  by (induction m arbitrary: s) (simp_all add: clearTimeout_def)

lemma perform_maxProfiles: "maxProfiles (perform s c) = maxProfiles s"
  and perform_profileTTL: "profileTTL (perform s c) = profileTTL s"
proof -
  obtain now op where c: "c = (now, op)" by (cases c)
  show "maxProfiles (perform s c) = maxProfiles s"
    unfolding c
    by (cases op) (simp_all add: storeProfile_fields markInProgress_def getProfile_def
        deleteProfile_def cleanup_def fireTimer_def clearTimeout_def clearTimeouts_fields Let_def
        split: option.splits prod.splits)
  show "profileTTL (perform s c) = profileTTL s"
    unfolding c
    by (cases op) (simp_all add: storeProfile_fields markInProgress_def getProfile_def
        deleteProfile_def cleanup_def fireTimer_def clearTimeout_def clearTimeouts_fields Let_def
        split: option.splits prod.splits)
qed

lemma bounded_Map_delete:
  assumes "bounded s"
  shows "bounded (s\<lparr> profiles := Map_delete k (profiles s) \<rparr>)"
proof -
  have "length (Map_delete k (profiles s)) \<le> length (profiles s)" by (rule length_Map_delete)
  with assms show ?thesis by (simp add: bounded_def distinct_Map_delete)
qed

lemma bounded_perform:
  assumes "bounded s"
  shows "bounded (perform s c)"
proof -
  obtain now op where c: "c = (now, op)" by (cases c)
  show ?thesis
  proof (cases op)
    case (MarkInProgress i d)
    with assms show ?thesis by (simp add: c markInProgress_def bounded_def)
  next
    case (StoreProfile i d)
    have "distinct (map fst (profiles (storeProfile now i d s)))"
      using assms by (simp add: storeProfile_profiles distinct_Map_set evictOldest_distinct bounded_def)
    with assms storeProfile_length [of s now i d] show ?thesis
      by (simp add: c StoreProfile bounded_def storeProfile_fields)
  next
    case (GetProfile i)
    with assms bounded_Map_delete [OF assms, of i] show ?thesis
      by (simp add: c getProfile_def split: option.splits)
  next
    case (DeleteProfile i)
    have "bounded (clearTimeout h s)" for h
      using assms by (simp add: bounded_def clearTimeout_def)
    from bounded_Map_delete [OF this, of i] bounded_Map_delete [OF assms, of i]
    show ?thesis
      by (simp add: c DeleteProfile deleteProfile_def Let_def split: option.splits)
  next
    case Cleanup
    with assms show ?thesis
      by (simp add: c cleanup_def bounded_def clearTimeouts_fields)
  next
    case (TimerFires h)
    have "bounded (s\<lparr> timers := tm \<rparr>)" for tm
      using assms by (simp add: bounded_def)
    from bounded_Map_delete [OF this]
    show ?thesis using assms
      by (simp add: c TimerFires fireTimer_def split: option.splits)
  qed
qed

lemma bounded_history: "bounded s \<Longrightarrow> bounded (history s calls)"
  unfolding history_def
  by (induction calls arbitrary: s) (simp_all add: bounded_perform)

lemma history_fields:
  "maxProfiles (history s calls) = maxProfiles s" "profileTTL (history s calls) = profileTTL s"
  unfolding history_def
  by (induction calls arbitrary: s) (simp_all add: perform_maxProfiles perform_profileTTL)

lemma bounded_ProfileStorage: "1 \<le> C \<Longrightarrow> bounded (ProfileStorage (Some C) ttl)"
  by (simp add: bounded_def ProfileStorage_def or_default_def)

lemma storeProfile_at_capacity:
  assumes b: "bounded s"
    and full: "int (length (profiles s)) = maxProfiles s"
    and fresh: "\<not> Map_has i (profiles s)"
  shows "\<exists>kv m. profiles s = kv # m \<and> fst kv \<noteq> i \<and> fst kv \<notin> fst ` set m \<and> i \<notin> fst ` set m \<and>
           profiles (storeProfile now i d s)
             = m @ [(i, \<lparr> data = d, expiresAt = now + profileTTL s, timeout = nextTimer s \<rparr>)]"
proof -
  from b full obtain kv m where km: "profiles s = kv # m"
    by (cases "profiles s") (auto simp: bounded_def)
  from b km have d: "distinct (map fst (kv # m))" by (simp add: bounded_def)
  from fresh km have ni: "fst kv \<noteq> i" "i \<notin> fst ` set m"
    by (auto simp: Map_has_keys)
  from d have nk: "fst kv \<notin> fst ` set m" by simp
  have "profiles (evictOldest s) = m"
    using full km Map_delete_first [OF d] by (simp add: evictOldest_def)
  then have "profiles (storeProfile now i d s)
      = m @ [(i, \<lparr> data = d, expiresAt = now + profileTTL s, timeout = nextTimer s \<rparr>)]"
    using ni(2) by (simp add: storeProfile_profiles Map_set_fresh)
  with km ni nk show ?thesis by blast
qed

subsection \<open>The entry of one identifier\<close>

lemma evictOldest_entry:
  "Map_get k (profiles (evictOldest s)) = None \<or>
   Map_get k (profiles (evictOldest s)) = Map_get k (profiles s)"
  using evictOldest_cases [of s] by (auto simp: Map_get_Map_delete)

lemma storeProfile_other:
  "k \<noteq> i \<Longrightarrow> Map_get k (profiles (storeProfile now i d s)) = None \<or>
     Map_get k (profiles (storeProfile now i d s)) = Map_get k (profiles s)"
  using evictOldest_entry [of k s] by (simp add: storeProfile_profiles Map_get_Map_set)

lemma getProfile_entry:
  "Map_get k (profiles (snd (getProfile now i s))) = None \<or>
   Map_get k (profiles (snd (getProfile now i s))) = Map_get k (profiles s)"
  by (simp add: getProfile_def Map_get_Map_delete split: option.splits)

lemma fireTimer_entry:
  "Map_get k (profiles (fireTimer now h s)) = None \<or>
   Map_get k (profiles (fireTimer now h s)) = Map_get k (profiles s)"
  by (simp add: fireTimer_def Map_get_Map_delete split: option.splits)

lemma perform_entry:
  assumes "\<not> stores i op"
  shows "Map_get i (profiles (perform s (tc, op))) = None \<or>
         Map_get i (profiles (perform s (tc, op))) = Map_get i (profiles s)"
proof (cases op)
  case (StoreProfile j d)
  with assms storeProfile_other [of i j tc d s] show ?thesis by simp
next
  case (GetProfile j)
  with getProfile_entry [of i tc j s] show ?thesis by simp
next
  case (TimerFires h)
  with fireTimer_entry [of i tc h s] show ?thesis by simp
next
  case (DeleteProfile j)
  then show ?thesis
    by (simp add: deleteProfile_def clearTimeout_def Let_def Map_get_Map_delete split: option.splits)
next
  case Cleanup
  then show ?thesis by (simp add: cleanup_def Map_get_def)
next
  case (MarkInProgress j d)
  then show ?thesis by (simp add: markInProgress_def)
qed

lemma history_entry:
  "notStoredAgain i calls \<Longrightarrow>
     Map_get i (profiles (history s calls)) = None \<or>
     Map_get i (profiles (history s calls)) = Map_get i (profiles s)"
proof (induction calls arbitrary: s)
  case Nil
  then show ?case by (simp add: history_def)
next
  case (Cons c calls)
  obtain tc op where c: "c = (tc, op)" by (cases c)
  from Cons.prems have n: "\<not> stores i op" and rest: "notStoredAgain i calls"
    by (simp_all add: notStoredAgain_def c)
  have h: "history s (c # calls) = history (perform s (tc, op)) calls"
    by (simp add: history_def c)
  from Cons.IH [OF rest, of "perform s (tc, op)"] perform_entry [OF n, of s tc]
  show ?case unfolding h by auto
qed

lemma evictOldest_keeps:
  "\<not> evicts i s \<Longrightarrow> Map_get i (profiles (evictOldest s)) = Map_get i (profiles s)"
  by (auto simp: evicts_def evictOldest_def Map_get_Map_delete split: list.splits)

lemma retained_perform:
  assumes entry: "Map_get i (profiles s) = Some e"
    and live: "t' < expiresAt e"
    and tm: "\<forall>h due. timers s h = Some (due, i) \<longrightarrow> t' < due"
    and tc: "tc \<le> t'" and r: "\<not> removes i s op"
  shows "Map_get i (profiles (perform s (tc, op))) = Some e \<and>
         (\<forall>h due. timers (perform s (tc, op)) h = Some (due, i) \<longrightarrow> t' < due)"
proof (cases op)
  case (StoreProfile j d)
  with r have ne: "j \<noteq> i" and ev: "\<not> evicts i s" by simp_all
  have "Map_get i (profiles (storeProfile tc j d s)) = Some e"
    using ne entry evictOldest_keeps [OF ev]
    by (simp add: storeProfile_profiles Map_get_Map_set)
  moreover have "\<forall>h due. timers (storeProfile tc j d s) h = Some (due, i) \<longrightarrow> t' < due"
    using tm ne by (simp add: storeProfile_fields)
  ultimately show ?thesis by (simp add: StoreProfile)
next
  case (DeleteProfile j)
  with r have ne: "j \<noteq> i" by simp
  with entry tm show ?thesis
    by (simp add: DeleteProfile deleteProfile_def clearTimeout_def Let_def Map_get_Map_delete
        split: option.splits)
next
  case Cleanup
  with r show ?thesis by simp
next
  case (MarkInProgress j d)
  with entry tm show ?thesis by (simp add: markInProgress_def)
next
  case (GetProfile j)
  show ?thesis
  proof (cases "j = i")
    case True
    from live tc have "\<not> tc > expiresAt e" by simp
    with entry tm show ?thesis by (simp add: GetProfile True getProfile_def)
  next
    case False
    with entry tm show ?thesis
      by (simp add: GetProfile getProfile_def Map_get_Map_delete split: option.splits)
  qed
next
  case (TimerFires h)
  show ?thesis
  proof (cases "timers s h")
    case None
    with entry tm show ?thesis by (simp add: TimerFires fireTimer_def)
  next
    case (Some p)
    obtain due target where p: "p = (due, target)" by (cases p)
    show ?thesis
    proof (cases "due \<le> tc")
      case True
      have "target \<noteq> i"
      proof
        assume "target = i"
        with tm Some p have "t' < due" by simp
        with True tc show False by simp
      qed
      with entry tm show ?thesis
        by (simp add: TimerFires fireTimer_def Some p True Map_get_Map_delete)
    next
      case False
      with entry tm show ?thesis by (simp add: TimerFires fireTimer_def Some p)
    qed
  qed
qed

lemma retained_history:
  assumes "Map_get i (profiles s) = Some e" and "t' < expiresAt e"
    and "\<forall>h due. timers s h = Some (due, i) \<longrightarrow> t' < due"
    and "retained t' i s calls"
  shows "Map_get i (profiles (history s calls)) = Some e"
  using assms
proof (induction calls arbitrary: s)
  case Nil
  then show ?case by (simp add: history_def)
next
  case (Cons c calls)
  obtain tc op where c: "c = (tc, op)" by (cases c)
  from Cons.prems(4) have tc: "tc \<le> t'" and r: "\<not> removes i s op"
    and rest: "retained t' i (perform s (tc, op)) calls"
    by (simp_all add: c)
  have h: "history s (c # calls) = history (perform s (tc, op)) calls"
    by (simp add: history_def c)
  from retained_perform [OF Cons.prems(1,2,3) tc r]
  have "Map_get i (profiles (perform s (tc, op))) = Some e"
    and "\<forall>h due. timers (perform s (tc, op)) h = Some (due, i) \<longrightarrow> t' < due"
    by simp_all
  from Cons.IH [OF this(1) Cons.prems(2) this(2) rest]
  show ?case unfolding h .
qed

subsection \<open>What the handlers do to the store\<close>

lemma Map_has_Map_set: "Map_has j (Map_set k v m) \<longleftrightarrow> j = k \<or> Map_has j m"
  by (simp add: Map_has_def Map_get_Map_set)

lemma Map_has_Map_delete: "Map_has j (Map_delete k m) \<longleftrightarrow> j \<noteq> k \<and> Map_has j m"
  by (simp add: Map_has_def Map_get_Map_delete)

lemma Map_has_entry:
  "Map_get k m' = None \<or> Map_get k m' = Map_get k m \<Longrightarrow> Map_has k m' \<Longrightarrow> Map_has k m"
  by (auto simp: Map_has_def)

lemma storeProfile_has:
  "Map_has k (profiles (storeProfile now i d s)) \<Longrightarrow> k = i \<or> Map_has k (profiles s)"
  using storeProfile_other [of k i now d s] by (cases "k = i") (auto simp: Map_has_def)

lemma storeProfile_inProgress:
  "Map_has k (inProgress (storeProfile now i d s)) \<longleftrightarrow> k \<noteq> i \<and> Map_has k (inProgress s)"
  by (simp add: storeProfile_fields Map_has_Map_delete)

lemma getProfile_has:
  "Map_has k (profiles (snd (getProfile now i s))) \<Longrightarrow> Map_has k (profiles s)"
  using getProfile_entry [of k now i s] by (rule Map_has_entry)

lemma getProfile_inProgress: "inProgress (snd (getProfile now i s)) = inProgress s"
  by (simp add: getProfile_def split: option.splits)

lemma fireTimer_has:
  "Map_has k (profiles (fireTimer now h s)) \<Longrightarrow> Map_has k (profiles s)"
  using fireTimer_entry [of k now h s] by (rule Map_has_entry)

lemma fireTimer_inProgress: "inProgress (fireTimer now h s) = inProgress s"
  by (simp add: fireTimer_def split: option.splits)

lemma handleResultPage_state:
  "snd (handleResultPage cfg e now i s) = s \<or>
   snd (handleResultPage cfg e now i s) = snd (getProfile now i s)"
  by (simp add: handleResultPage_def Let_def split: option.splits prod.splits)

lemma handleStartProfiling_state:
  assumes "handleStartProfiling cfg e now newId q s = (out, s', launched)"
  shows "(launched = None \<and> s' = s) \<or>
         (\<exists>d. launched = Some (newId, d) \<and> s' = markInProgress now newId d s)"
  using assms by (auto simp: handleStartProfiling_def split: sum.splits if_splits)

lemma flamegraphMiddleware_state:
  assumes "flamegraphMiddleware cfg e now newId pathname q s = (out, s', launched)"
  shows "(launched = None \<and> (s' = s \<or> (\<exists>i. s' = snd (getProfile now i s)))) \<or>
         (\<exists>d. launched = Some (newId, d) \<and> s' = markInProgress now newId d s)"
proof (cases "startsWith pathname (basePath cfg)")
  case False
  with assms show ?thesis by (simp add: flamegraphMiddleware_def)
next
  case True
  let ?sub = "if drop (length (basePath cfg)) pathname = [] then ''/''
              else drop (length (basePath cfg)) pathname"
  show ?thesis
  proof (cases "?sub = ''/'' \<or> ?sub = []")
    case start: True
    with assms True have "handleStartProfiling cfg e now newId q s = (out, s', launched)"
      by (simp add: flamegraphMiddleware_def Let_def)
    from handleStartProfiling_state [OF this] show ?thesis by blast
  next
    case other: False
    show ?thesis
    proof (cases "resultMatch ?sub")
      case None
      with assms True other show ?thesis
        by (simp add: flamegraphMiddleware_def Let_def)
    next
      case (Some i)
      with assms True other
      have "launched = None" and "s' = snd (handleResultPage cfg e now i s)"
        by (auto simp: flamegraphMiddleware_def Let_def split: prod.splits)
      with handleResultPage_state [of cfg e now i s] show ?thesis by auto
    qed
  qed
qed

lemma collectProfilesInBackground_state:
  "collectProfilesInBackground e now i c h s = s \<or>
   (\<exists>d. collectProfilesInBackground e now i c h s = storeProfile now i d s)"
  by (auto simp: collectProfilesInBackground_def split: option.splits)

lemma collectProfilesInBackground_fails:
  "collectionFails e c h \<Longrightarrow> collectProfilesInBackground e now i c h s = s"
  by (auto simp: collectProfilesInBackground_def collectionFails_def split: option.splits)

subsection \<open>Invariants of the server\<close>

lemma consistent_mono: "consistent U w \<Longrightarrow> U \<subseteq> V \<Longrightarrow> consistent V w"
  unfolding consistent_def by blast

lemma consistent_shrink:
  assumes c: "consistent U w"
    and ip: "inProgress s' = inProgress (storage w)"
    and pr: "\<And>k. Map_has k (profiles s') \<Longrightarrow> Map_has k (profiles (storage w))"
  shows "consistent U (w\<lparr> storage := s' \<rparr>)"
  using c pr unfolding consistent_def by (simp add: ip) blast

lemma consistent_launch:
  assumes c: "consistent U w" and new: "newId \<notin> U"
  shows "consistent (insert newId U)
           (w\<lparr> storage := markInProgress now newId d (storage w),
               collecting := collecting w @ [newId] \<rparr>)"
proof -
  have ip: "Map_has k (inProgress (markInProgress now newId d (storage w)))
              \<longleftrightarrow> k = newId \<or> Map_has k (inProgress (storage w))" for k
    by (simp add: markInProgress_def Map_has_Map_set)
  have pr: "profiles (markInProgress now newId d (storage w)) = profiles (storage w)"
    by (simp add: markInProgress_def)
  from c new have "newId \<notin> set (collecting w)" "\<not> Map_has newId (profiles (storage w))"
    unfolding consistent_def by blast+
  with c show ?thesis
    unfolding consistent_def by (simp add: ip pr) blast
qed

lemma consistent_settle:
  assumes c: "consistent U w" and i: "i \<in> set (collecting w)"
  shows "consistent U (w\<lparr> storage := collectProfilesInBackground e now i cp hp (storage w),
                          collecting := remove1 i (collecting w) \<rparr>)"
proof -
  let ?s' = "collectProfilesInBackground e now i cp hp (storage w)"
  from c have d: "distinct (collecting w)" unfolding consistent_def by simp
  then have rest: "set (remove1 i (collecting w)) = set (collecting w) - {i}"
    by simp
  have ip: "Map_has k (inProgress ?s') \<Longrightarrow> Map_has k (inProgress (storage w))" for k
    using collectProfilesInBackground_state [of e now i cp hp "storage w"]
    by (auto simp: storeProfile_inProgress)
  have ipk: "k \<noteq> i \<Longrightarrow> Map_has k (inProgress (storage w)) \<Longrightarrow> Map_has k (inProgress ?s')" for k
    using collectProfilesInBackground_state [of e now i cp hp "storage w"]
    by (auto simp: storeProfile_inProgress)
  have pr: "Map_has k (profiles ?s') \<Longrightarrow> k \<noteq> i \<Longrightarrow> Map_has k (profiles (storage w))" for k
    using collectProfilesInBackground_state [of e now i cp hp "storage w"]
      storeProfile_has [of k now i _ "storage w"]
    by auto
  have both: "\<not> (Map_has i (inProgress ?s') \<and> Map_has i (profiles ?s'))"
  proof (cases "?s' = storage w")
    case True
    with c show ?thesis unfolding consistent_def by simp
  next
    case False
    with collectProfilesInBackground_state [of e now i cp hp "storage w"]
    obtain d where "?s' = storeProfile now i d (storage w)" by blast
    then show ?thesis by (simp add: storeProfile_inProgress)
  qed
  from c i have iU: "i \<in> U" unfolding consistent_def by blast
  have c1: "k \<in> U" if "Map_has k (inProgress ?s')" for k
    using that ip [of k] c unfolding consistent_def by simp
  have c2: "k \<in> U" if "Map_has k (profiles ?s')" for k
    using that pr [of k] iU c unfolding consistent_def by (cases "k = i") simp_all
  have c6: "\<not> (Map_has k (inProgress ?s') \<and> Map_has k (profiles ?s'))" for k
  proof (cases "k = i")
    case True
    with both show ?thesis by simp
  next
    case False
    with ip [of k] pr [of k] c show ?thesis unfolding consistent_def by auto
  qed
  have c3: "set (remove1 i (collecting w)) \<subseteq> U"
    using c rest unfolding consistent_def by auto
  have c4: "distinct (remove1 i (collecting w))"
    using d by simp
  have c5: "Map_has k (inProgress ?s') \<and> \<not> Map_has k (profiles ?s')"
    if "k \<in> set (remove1 i (collecting w))" for k
  proof -
    from that rest have k: "k \<in> set (collecting w)" "k \<noteq> i" by auto
    with c have "Map_has k (inProgress (storage w))" "\<not> Map_has k (profiles (storage w))"
      unfolding consistent_def by blast+
    with k ipk [of k] pr [of k] show ?thesis by auto
  qed
  show ?thesis
    unfolding consistent_def using c1 c2 c3 c4 c5 c6 by simp
qed

lemma consistent_step:
  assumes c: "consistent U w" and new: "set (generated [ev]) \<inter> U = {}"
  shows "consistent (U \<union> set (generated [ev])) (step cfg e w ev)"
proof (cases ev)
  case (Request pathname q newId)
  obtain out s' launched
    where m: "flamegraphMiddleware cfg e (clock w) newId pathname q (storage w) = (out, s', launched)"
    by (cases "flamegraphMiddleware cfg e (clock w) newId pathname q (storage w)")
  from new Request have fresh: "newId \<notin> U" by simp
  from flamegraphMiddleware_state [OF m]
  consider (same) "launched = None" "s' = storage w"
    | (read) i where "launched = None" "s' = snd (getProfile (clock w) i (storage w))"
    | (launch) d where "launched = Some (newId, d)" "s' = markInProgress (clock w) newId d (storage w)"
    by blast
  then have "consistent (insert newId U) (step cfg e w ev)"
  proof cases
    case same
    have "w\<lparr> storage := storage w, collecting := collecting w \<rparr> = w" by simp
    moreover have "consistent (insert newId U) w"
      by (rule consistent_mono [OF c]) auto
    ultimately show ?thesis using same
      by (simp add: Request m)
  next
    case read
    have "consistent U (w\<lparr> storage := s' \<rparr>)"
      using read(2) by (intro consistent_shrink [OF c]) (simp_all add: getProfile_inProgress getProfile_has)
    then have "consistent (insert newId U) (w\<lparr> storage := s' \<rparr>)"
      by (rule consistent_mono) auto
    moreover have "w\<lparr> storage := s', collecting := collecting w \<rparr> = w\<lparr> storage := s' \<rparr>" by simp
    ultimately show ?thesis using read(1) by (simp add: Request m)
  next
    case launch
    with consistent_launch [OF c fresh, of "clock w" d] show ?thesis
      by (simp add: Request m)
  qed
  then show ?thesis by (simp add: Request)
next
  case (Settles i cp hp)
  with c consistent_settle [OF c, of i e "clock w" cp hp] show ?thesis by simp
next
  case (Fires h)
  have "consistent U (w\<lparr> storage := fireTimer (clock w) h (storage w) \<rparr>)"
    by (intro consistent_shrink [OF c]) (simp_all add: fireTimer_inProgress fireTimer_has)
  then show ?thesis by (simp add: Fires)
next
  case (Passes n)
  with c show ?thesis by (simp add: consistent_def)
qed

lemma generated_append: "generated (evs1 @ evs2) = generated evs1 @ generated evs2"
  by (induction evs1 rule: generated.induct) simp_all

lemma generated_Cons: "generated (ev # evs) = generated [ev] @ generated evs"
  using generated_append [of "[ev]" evs] by simp

lemma consistent_run:
  assumes "consistent U w" and "distinct (generated evs)" and "set (generated evs) \<inter> U = {}"
  shows "consistent (U \<union> set (generated evs)) (run cfg e w evs)"
  using assms
proof (induction evs arbitrary: U w)
  case Nil
  then show ?case by (simp add: run_def)
next
  case (Cons ev evs)
  let ?U = "U \<union> set (generated [ev])"
  from Cons.prems(2,3) have d: "distinct (generated evs)"
    and n1: "set (generated [ev]) \<inter> U = {}" and n2: "set (generated evs) \<inter> ?U = {}"
    unfolding generated_Cons [of ev evs] by auto
  from Cons.IH [OF consistent_step [OF Cons.prems(1) n1] d n2, of cfg e]
  have "consistent (?U \<union> set (generated evs)) (run cfg e (step cfg e w ev) evs)" .
  moreover have "?U \<union> set (generated evs) = U \<union> set (generated (ev # evs))"
    unfolding generated_Cons [of ev evs] by auto
  ultimately show ?case by (simp add: run_def)
qed

lemma consistent_start: "consistent {} (start opts t)"
  by (simp add: consistent_def start_def createStorage_def ProfileStorage_def Map_has_def Map_get_def)

lemma stuck_step:
  assumes st: "stuck i w" and new: "i \<notin> set (generated [ev])"
  shows "stuck i (step cfg e w ev)"
proof (cases ev)
  case (Request pathname q newId)
  obtain out s' launched
    where m: "flamegraphMiddleware cfg e (clock w) newId pathname q (storage w) = (out, s', launched)"
    by (cases "flamegraphMiddleware cfg e (clock w) newId pathname q (storage w)")
  from new Request have ne: "i \<noteq> newId" by simp
  from flamegraphMiddleware_state [OF m]
  consider (same) "launched = None" "s' = storage w"
    | (read) j where "launched = None" "s' = snd (getProfile (clock w) j (storage w))"
    | (launch) d where "launched = Some (newId, d)" "s' = markInProgress (clock w) newId d (storage w)"
    by blast
  then show ?thesis
  proof cases
    case same
    with st show ?thesis by (simp add: Request m stuck_def)
  next
    case read
    with st getProfile_has [of i "clock w" j "storage w"] show ?thesis
      by (auto simp: Request m stuck_def getProfile_inProgress)
  next
    case launch
    with st ne show ?thesis
      by (simp add: Request m stuck_def markInProgress_def Map_has_Map_set)
  qed
next
  case (Settles j cp hp)
  show ?thesis
  proof (cases "j \<in> set (collecting w)")
    case False
    with st show ?thesis by (simp add: Settles)
  next
    case True
    with st have ne: "i \<noteq> j" by (auto simp: stuck_def)
    let ?s' = "collectProfilesInBackground e (clock w) j cp hp (storage w)"
    have "Map_has i (inProgress ?s')"
      using collectProfilesInBackground_state [of e "clock w" j cp hp "storage w"] st ne
      by (auto simp: storeProfile_inProgress stuck_def)
    moreover have "\<not> Map_has i (profiles ?s')"
      using collectProfilesInBackground_state [of e "clock w" j cp hp "storage w"] st ne
        storeProfile_has [of i "clock w" j _ "storage w"]
      by (auto simp: stuck_def)
    moreover have "i \<notin> set (remove1 j (collecting w))"
      using st by (auto simp: stuck_def dest: notin_set_remove1)
    ultimately show ?thesis using True by (simp add: Settles stuck_def)
  qed
next
  case (Fires h)
  with st fireTimer_has [of i "clock w" h "storage w"] show ?thesis
    by (auto simp: stuck_def fireTimer_inProgress)
next
  case (Passes n)
  with st show ?thesis by (simp add: stuck_def)
qed

lemma stuck_run: "stuck i w \<Longrightarrow> i \<notin> set (generated evs) \<Longrightarrow> stuck i (run cfg e w evs)"
proof (induction evs arbitrary: w)
  case Nil
  then show ?case by (simp add: run_def)
next
  case (Cons ev evs)
  from Cons.prems(2) have "i \<notin> set (generated [ev])" "i \<notin> set (generated evs)"
    unfolding generated_Cons [of ev evs] by simp_all
  from Cons.IH [OF stuck_step [OF Cons.prems(1) this(1)] this(2), of cfg e]
  show ?case by (simp add: run_def)
qed

subsection \<open>The runs of the server are histories of the store\<close>

lemma history_append: "history s (calls1 @ calls2) = history (history s calls1) calls2"
  by (simp add: history_def)

lemma step_history: "\<exists>calls. storage (step cfg e w ev) = history (storage w) calls"
proof (cases ev)
  case (Request pathname q newId)
  obtain out s' launched
    where m: "flamegraphMiddleware cfg e (clock w) newId pathname q (storage w) = (out, s', launched)"
    by (cases "flamegraphMiddleware cfg e (clock w) newId pathname q (storage w)")
  from flamegraphMiddleware_state [OF m]
  consider (same) "s' = storage w"
    | (read) i where "s' = snd (getProfile (clock w) i (storage w))"
    | (launch) d where "s' = markInProgress (clock w) newId d (storage w)"
    by blast
  then have "\<exists>calls. s' = history (storage w) calls"
  proof cases
    case same
    then have "s' = history (storage w) []" by (simp add: history_def)
    then show ?thesis ..
  next
    case read
    then have "s' = history (storage w) [(clock w, GetProfile i)]" by (simp add: history_def)
    then show ?thesis ..
  next
    case launch
    then have "s' = history (storage w) [(clock w, MarkInProgress newId d)]"
      by (simp add: history_def)
    then show ?thesis ..
  qed
  then show ?thesis by (simp add: Request m)
next
  case (Settles i cp hp)
  show ?thesis
  proof (cases "i \<in> set (collecting w)")
    case False
    then have "storage (step cfg e w ev) = history (storage w) []"
      by (simp add: Settles history_def)
    then show ?thesis ..
  next
    case True
    from collectProfilesInBackground_state [of e "clock w" i cp hp "storage w"]
    show ?thesis
    proof
      assume "collectProfilesInBackground e (clock w) i cp hp (storage w) = storage w"
      with True have "storage (step cfg e w ev) = history (storage w) []"
        by (simp add: Settles history_def)
      then show ?thesis ..
    next
      assume "\<exists>d. collectProfilesInBackground e (clock w) i cp hp (storage w)
                = storeProfile (clock w) i d (storage w)"
      then obtain d where "collectProfilesInBackground e (clock w) i cp hp (storage w)
                = storeProfile (clock w) i d (storage w)" ..
      with True have "storage (step cfg e w ev) = history (storage w) [(clock w, StoreProfile i d)]"
        by (simp add: Settles history_def)
      then show ?thesis ..
    qed
  qed
next
  case (Fires h)
  then have "storage (step cfg e w ev) = history (storage w) [(clock w, TimerFires h)]"
    by (simp add: history_def)
  then show ?thesis ..
next
  case (Passes n)
  then have "storage (step cfg e w ev) = history (storage w) []"
    by (simp add: history_def)
  then show ?thesis ..
qed

lemma run_history: "\<exists>calls. storage (run cfg e w evs) = history (storage w) calls"
proof (induction evs arbitrary: w)
  case Nil
  have "storage (run cfg e w []) = history (storage w) []"
    by (simp add: run_def history_def)
  then show ?case ..
next
  case (Cons ev evs)
  from step_history [of cfg e w ev]
  obtain c1 where c1: "storage (step cfg e w ev) = history (storage w) c1" ..
  from Cons.IH [of "step cfg e w ev"]
  obtain c2 where c2: "storage (run cfg e (step cfg e w ev) evs)
      = history (storage (step cfg e w ev)) c2" ..
  have "storage (run cfg e w (ev # evs)) = history (storage w) (c1 @ c2)"
    using c1 c2 by (simp add: run_def history_append)
  then show ?case ..
qed

section \<open>The claims\<close>

subsection \<open>C1: paths that match no route\<close>

text \<open>
  Claim C1, as the code has it. A request whose path does not start with the base path is
  passed to the next handler: the middleware calls \<^verbatim>\<open>next()\<close>, writes nothing and
  leaves the store as it was. A request whose path starts with the base path and is
  neither the start route nor a result route is not passed on: the middleware answers it
  with the error page \<^verbatim>\<open>Not found\<close> and status 404, and leaves the store as it was.
\<close>

theorem unmatched_paths:
  "(\<not> startsWith pathname (basePath cfg) \<longrightarrow>
      flamegraphMiddleware cfg e now newId pathname q s = (CallNext, s, None)) \<and>
   (startsWith pathname (basePath cfg) \<and> \<not> startRoute cfg pathname \<and> \<not> resultRoute cfg pathname \<longrightarrow>
      flamegraphMiddleware cfg e now newId pathname q s = (Respond 404 (ErrorPage NotFound 404), s, None))"
proof (intro conjI impI)
  assume "\<not> startsWith pathname (basePath cfg)"
  then show "flamegraphMiddleware cfg e now newId pathname q s = (CallNext, s, None)"
    by (simp add: flamegraphMiddleware_def)
next
  assume a: "startsWith pathname (basePath cfg) \<and> \<not> startRoute cfg pathname \<and> \<not> resultRoute cfg pathname"
  then have sw: "startsWith pathname (basePath cfg)" by simp
  from a have "drop (length (basePath cfg)) pathname \<noteq> []"
    and "drop (length (basePath cfg)) pathname \<noteq> ''/''"
    and "resultMatch (drop (length (basePath cfg)) pathname) = None"
    using startRoute_sliced [OF sw] resultRoute_resultMatch [OF sw] by auto
  then show "flamegraphMiddleware cfg e now newId pathname q s
               = (Respond 404 (ErrorPage NotFound 404), s, None)"
    using sw by (simp add: flamegraphMiddleware_def Let_def sendError_def)
qed

text \<open>
  With the default options, \<^verbatim>\<open>/other-path\<close> is passed on and
  \<^verbatim>\<open>/flamegraph/foo\<close> is answered with 404.
\<close>

theorem unmatched_paths_witness:
  "\<not> startsWith ''/other-path'' (basePath (createConfig noOptions)) \<and>
   flamegraphMiddleware (createConfig noOptions) exampleEnv 0 ''0a'' ''/other-path'' None (createStorage noOptions)
     = (CallNext, createStorage noOptions, None) \<and>
   startsWith ''/flamegraph/foo'' (basePath (createConfig noOptions)) \<and>
   \<not> startRoute (createConfig noOptions) ''/flamegraph/foo'' \<and>
   \<not> resultRoute (createConfig noOptions) ''/flamegraph/foo'' \<and>
   flamegraphMiddleware (createConfig noOptions) exampleEnv 0 ''0a'' ''/flamegraph/foo'' None (createStorage noOptions)
     = (Respond 404 (ErrorPage NotFound 404), createStorage noOptions, None)"
proof -
  have a: "\<not> startsWith ''/other-path'' (basePath (createConfig noOptions))"
    by (simp add: startsWith_def createConfig_def noOptions_def)
  have b: "startsWith ''/flamegraph/foo'' (basePath (createConfig noOptions)) \<and>
   \<not> startRoute (createConfig noOptions) ''/flamegraph/foo'' \<and>
   \<not> resultRoute (createConfig noOptions) ''/flamegraph/foo''"
    by (simp add: startsWith_def createConfig_def noOptions_def startRoute_def resultRoute_def)
  show ?thesis
    using a b
      unmatched_paths [of "''/other-path''" "createConfig noOptions" exampleEnv 0 "''0a''" None "createStorage noOptions"]
      unmatched_paths [of "''/flamegraph/foo''" "createConfig noOptions" exampleEnv 0 "''0a''" None "createStorage noOptions"]
    by blast
qed

text \<open>
  Claim C1 as stated lets every unmatched path under the base path through to the next
  handler. For \<^verbatim>\<open>/flamegraph/foo\<close> the middleware responds itself.
\<close>

theorem unmatched_under_base_counterexample:
  "fst (flamegraphMiddleware (createConfig noOptions) exampleEnv 0 ''0a'' ''/flamegraph/foo'' None
          (createStorage noOptions)) = Respond 404 (ErrorPage NotFound 404) \<and>
   fst (flamegraphMiddleware (createConfig noOptions) exampleEnv 0 ''0a'' ''/flamegraph/foo'' None
          (createStorage noOptions)) \<noteq> CallNext"
  by (simp add: flamegraphMiddleware_def createConfig_def noOptions_def startsWith_def resultMatch_def sendError_def)

subsection \<open>C2: the timer of an evicted record\<close>

text \<open>
  Claim C2 asks that the eviction step of \<^verbatim>\<open>storeProfile\<close> cancels the scheduled
  removal of the record it evicts, as \<^verbatim>\<open>deleteProfile\<close> does. The eviction step
  deletes the map entry only. In a store of capacity 1 and time-to-live 1000, storing
  \<open>a\<close> and then \<open>b\<close> at time 0 evicts \<open>a\<close>, and the timer 0 that was scheduled for \<open>a\<close>
  is still pending, due at 1000, with no record of \<open>a\<close> in the map.
\<close>

theorem eviction_leaves_timer_pending:
  "Map_get ''a'' (profiles (storeProfile 0 ''b'' exampleData
       (storeProfile 0 ''a'' exampleData (ProfileStorage (Some 1) (Some 1000))))) = None \<and>
   timers (storeProfile 0 ''b'' exampleData
       (storeProfile 0 ''a'' exampleData (ProfileStorage (Some 1) (Some 1000)))) 0 = Some (1000, ''a'')"
  by (simp add: eval_defs)

subsection \<open>C3: the capacity\<close>

text \<open>
  Claim C3, for a configured capacity \<open>C\<close> of at least 1. In every state \<open>S\<close> that a store
  constructed with capacity \<open>C\<close> reaches, by whatever calls of its methods and timer
  callbacks at whatever times, the number of completed records is at most \<open>C\<close>. When
  \<^verbatim>\<open>storeProfile\<close> is called in \<open>S\<close> with an identifier \<open>i\<close> that has no record while
  \<open>C\<close> records are stored, the keys afterwards are the former keys without the first,
  followed by \<open>i\<close>: exactly the oldest-inserted record is evicted, and \<^verbatim>\<open>getProfile\<close>
  returns nothing for it. The new record is returned by \<^verbatim>\<open>getProfile\<close> up to its
  expiration time, and so is every other record \<open>k\<close> that was stored, up to its own.
  The bound holds in particular for the store of a middleware created with
  \<^verbatim>\<open>maxProfiles\<close> \<open>C\<close>, at every point of every run.
\<close>

theorem capacity_bound:
  fixes C :: int and ttl :: "int option" and calls :: "(int \<times> call) list"
  defines "S \<equiv> history (ProfileStorage (Some C) ttl) calls"
  assumes C: "1 \<le> C"
  shows "int (length (profiles S)) \<le> C \<and>
         (int (length (profiles S)) = C \<and> \<not> Map_has i (profiles S) \<longrightarrow>
           Map_keys (profiles (storeProfile now i d S)) = tl (Map_keys (profiles S)) @ [i] \<and>
           fst (getProfile t (hd (Map_keys (profiles S))) (storeProfile now i d S)) = None \<and>
           (t \<le> now + profileTTL S \<longrightarrow> fst (getProfile t i (storeProfile now i d S)) = Some d) \<and>
           (k \<in> set (tl (Map_keys (profiles S))) \<and> Map_get k (profiles S) = Some e \<and>
            t \<le> expiresAt e \<longrightarrow>
              fst (getProfile t k (storeProfile now i d S)) = Some (data e))) \<and>
         (optMaxProfiles opts = Some C \<longrightarrow>
            int (length (profiles (storage (run cfg env (start opts t0) evs)))) \<le> C)"
proof -
  have b: "bounded S"
    unfolding S_def by (rule bounded_history [OF bounded_ProfileStorage [OF C]])
  have m: "maxProfiles S = C"
    using C by (simp add: S_def history_fields ProfileStorage_def or_default_def)
  have bound: "int (length (profiles S)) \<le> C"
    using b m by (simp add: bounded_def)
  have "int (length (profiles S)) = C \<and> \<not> Map_has i (profiles S) \<longrightarrow>
           Map_keys (profiles (storeProfile now i d S)) = tl (Map_keys (profiles S)) @ [i] \<and>
           fst (getProfile t (hd (Map_keys (profiles S))) (storeProfile now i d S)) = None \<and>
           (t \<le> now + profileTTL S \<longrightarrow> fst (getProfile t i (storeProfile now i d S)) = Some d) \<and>
           (k \<in> set (tl (Map_keys (profiles S))) \<and> Map_get k (profiles S) = Some e \<and>
            t \<le> expiresAt e \<longrightarrow>
              fst (getProfile t k (storeProfile now i d S)) = Some (data e))"
  proof
    assume a: "int (length (profiles S)) = C \<and> \<not> Map_has i (profiles S)"
    let ?e = "\<lparr> data = d, expiresAt = now + profileTTL S, timeout = nextTimer S \<rparr>"
    from a m storeProfile_at_capacity [OF b, of i now d]
    obtain kv r where km: "profiles S = kv # r" and ni: "fst kv \<noteq> i" "i \<notin> fst ` set r"
      and nk: "fst kv \<notin> fst ` set r"
      and st: "profiles (storeProfile now i d S) = r @ [(i, ?e)]"
      by auto
    have keys: "Map_keys (profiles (storeProfile now i d S)) = tl (Map_keys (profiles S)) @ [i]"
      by (simp add: Map_keys_def st km)
    have "map_of r (fst kv) = None"
      using nk by (simp add: map_of_eq_None_iff)
    then have evicted: "fst (getProfile t (hd (Map_keys (profiles S))) (storeProfile now i d S)) = None"
      using ni(1) by (simp add: getProfile_def Map_get_def Map_keys_def st km map_add_def)
    have new: "fst (getProfile t i (storeProfile now i d S)) = Some d" if "t \<le> now + profileTTL S"
      using that by (simp add: getProfile_def storeProfile_entry)
    have old: "fst (getProfile t k (storeProfile now i d S)) = Some (data e)"
      if k: "k \<in> set (tl (Map_keys (profiles S)))" "Map_get k (profiles S) = Some e" "t \<le> expiresAt e"
    proof -
      from k(1) have kr: "k \<in> fst ` set r" by (simp add: Map_keys_def km)
      with nk have "k \<noteq> fst kv" by blast
      with k(2) have "map_of r k = Some e" by (simp add: Map_get_def km)
      then have "Map_get k (profiles (storeProfile now i d S)) = Some e"
        by (simp add: Map_get_def st map_add_def)
      with k(3) show ?thesis by (simp add: getProfile_def)
    qed
    from keys evicted new old
    show "Map_keys (profiles (storeProfile now i d S)) = tl (Map_keys (profiles S)) @ [i] \<and>
           fst (getProfile t (hd (Map_keys (profiles S))) (storeProfile now i d S)) = None \<and>
           (t \<le> now + profileTTL S \<longrightarrow> fst (getProfile t i (storeProfile now i d S)) = Some d) \<and>
           (k \<in> set (tl (Map_keys (profiles S))) \<and> Map_get k (profiles S) = Some e \<and>
            t \<le> expiresAt e \<longrightarrow>
              fst (getProfile t k (storeProfile now i d S)) = Some (data e))"
      by blast
  qed
  moreover have "int (length (profiles (storage (run cfg env (start opts t0) evs)))) \<le> C"
    if o: "optMaxProfiles opts = Some C"
  proof -
    from run_history [of cfg env "start opts t0" evs]
    obtain cs where cs: "storage (run cfg env (start opts t0) evs)
        = history (storage (start opts t0)) cs" ..
    have s0: "storage (start opts t0)
        = ProfileStorage (Some C) (Some (case optProfileTTL opts of None \<Rightarrow> 5 * 60 * 1000 | Some n \<Rightarrow> n))"
      by (simp add: start_def createStorage_def o)
    have "bounded (history (storage (start opts t0)) cs)"
      unfolding s0 by (rule bounded_history [OF bounded_ProfileStorage [OF C]])
    moreover have "maxProfiles (history (storage (start opts t0)) cs) = C"
      using C by (simp add: s0 history_fields ProfileStorage_def or_default_def)
    ultimately show ?thesis by (simp add: cs bounded_def)
  qed
  ultimately show ?thesis using bound by blast
qed

text \<open>
  Capacity 3, as in the tests of the store: after \<open>a\<close>, \<open>b\<close>, \<open>c\<close>, storing \<open>d\<close> evicts
  \<open>a\<close> and keeps \<open>b\<close>, \<open>c\<close>, \<open>d\<close>; and a run of a middleware with \<^verbatim>\<open>maxProfiles\<close> 3.
\<close>

theorem capacity_bound_witness:
  "int (length (profiles (history (ProfileStorage (Some 3) (Some 1000))
        [(0, StoreProfile ''a'' exampleData), (1, StoreProfile ''b'' exampleData),
         (2, StoreProfile ''c'' exampleData)]))) \<le> 3 \<and>
   Map_keys (profiles (storeProfile 3 ''d'' exampleData
      (history (ProfileStorage (Some 3) (Some 1000))
        [(0, StoreProfile ''a'' exampleData), (1, StoreProfile ''b'' exampleData),
         (2, StoreProfile ''c'' exampleData)]))) = [''b'', ''c'', ''d''] \<and>
   fst (getProfile 3 ''a'' (storeProfile 3 ''d'' exampleData
      (history (ProfileStorage (Some 3) (Some 1000))
        [(0, StoreProfile ''a'' exampleData), (1, StoreProfile ''b'' exampleData),
         (2, StoreProfile ''c'' exampleData)]))) = None \<and>
   fst (getProfile 3 ''d'' (storeProfile 3 ''d'' exampleData
      (history (ProfileStorage (Some 3) (Some 1000))
        [(0, StoreProfile ''a'' exampleData), (1, StoreProfile ''b'' exampleData),
         (2, StoreProfile ''c'' exampleData)]))) = Some exampleData \<and>
   fst (getProfile 3 ''b'' (storeProfile 3 ''d'' exampleData
      (history (ProfileStorage (Some 3) (Some 1000))
        [(0, StoreProfile ''a'' exampleData), (1, StoreProfile ''b'' exampleData),
         (2, StoreProfile ''c'' exampleData)]))) = Some exampleData \<and>
   int (length (profiles (storage (run (createConfig storeOptions) exampleEnv (start storeOptions 0)
      [Request ''/flamegraph'' None ''0a'', Passes 100,
       Settles ''0a'' (Some ''c'') (Some ''h'')])))) \<le> 3"
proof -
  let ?calls = "[(0, StoreProfile ''a'' exampleData), (1, StoreProfile ''b'' exampleData),
         (2, StoreProfile ''c'' exampleData)]"
  let ?S = "history (ProfileStorage (Some 3) (Some 1000)) ?calls"
  let ?e = "\<lparr> data = exampleData, expiresAt = 1001, timeout = 1 \<rparr>"
  let ?evs = "[Request ''/flamegraph'' None ''0a'', Passes 100,
       Settles ''0a'' (Some ''c'') (Some ''h'')]"
  have p: "profiles ?S = [(''a'', \<lparr> data = exampleData, expiresAt = 1000, timeout = 0 \<rparr>),
      (''b'', ?e), (''c'', \<lparr> data = exampleData, expiresAt = 1002, timeout = 2 \<rparr>)]"
    by (simp add: history_def storeProfile_profiles storeProfile_fields evictOldest_def
        ProfileStorage_def or_default_def)
  have ttl: "profileTTL ?S = 1000"
    by (simp add: history_fields ProfileStorage_def or_default_def)
  have h: "int (length (profiles ?S)) = 3 \<and> \<not> Map_has ''d'' (profiles ?S)"
    by (simp add: p Map_has_def Map_get_def)
  have k: "''b'' \<in> set (tl (Map_keys (profiles ?S))) \<and> Map_get ''b'' (profiles ?S) = Some ?e \<and>
      3 \<le> expiresAt ?e"
    by (simp add: p Map_keys_def Map_get_def)
  have keys: "tl (Map_keys (profiles ?S)) @ [''d''] = [''b'', ''c'', ''d'']"
    "hd (Map_keys (profiles ?S)) = ''a''"
    by (simp_all add: p Map_keys_def)
  have t: "(3::int) \<le> 3 + profileTTL ?S" by (simp add: ttl)
  have o: "optMaxProfiles storeOptions = Some 3" by (simp add: storeOptions_def)
  have C: "(1::int) \<le> 3" by simp
  note inst = capacity_bound [where C = 3 and ttl = "Some 1000" and calls = ?calls and i = "''d''"
      and now = 3 and d = exampleData and t = 3 and k = "''b''" and e = ?e and opts = storeOptions
      and cfg = "createConfig storeOptions" and env = exampleEnv and ?t0.0 = 0 and evs = ?evs, OF C]
  note evict = inst [THEN conjunct2, THEN conjunct1, THEN mp, OF h]
  have "int (length (profiles ?S)) \<le> 3"
    by (rule inst [THEN conjunct1])
  moreover have "Map_keys (profiles (storeProfile 3 ''d'' exampleData ?S)) = [''b'', ''c'', ''d'']"
    using evict [THEN conjunct1] by (simp only: keys)
  moreover have "fst (getProfile 3 ''a'' (storeProfile 3 ''d'' exampleData ?S)) = None"
    using evict [THEN conjunct2, THEN conjunct1] by (simp only: keys)
  moreover have "fst (getProfile 3 ''d'' (storeProfile 3 ''d'' exampleData ?S)) = Some exampleData"
    by (rule evict [THEN conjunct2, THEN conjunct2, THEN conjunct1, THEN mp, OF t])
  moreover have "fst (getProfile 3 ''b'' (storeProfile 3 ''d'' exampleData ?S)) = Some exampleData"
    using evict [THEN conjunct2, THEN conjunct2, THEN conjunct2, THEN mp, OF k] by simp
  moreover have "int (length (profiles (storage (run (createConfig storeOptions) exampleEnv
      (start storeOptions 0) ?evs)))) \<le> 3"
    by (rule inst [THEN conjunct2, THEN conjunct2, THEN mp, OF o])
  ultimately show ?thesis by (intro conjI)
qed

text \<open>
  Claim C3 as stated covers every configured capacity. A configured capacity of 0 is falsy:
  the constructor replaces it by 10, and the store then holds one record, more than 0.
\<close>

theorem capacity_zero_counterexample:
  "length (profiles (history (ProfileStorage (Some 0) (Some 1000))
      [(0, StoreProfile ''a'' exampleData)])) = 1 \<and>
   \<not> int (length (profiles (history (ProfileStorage (Some 0) (Some 1000))
      [(0, StoreProfile ''a'' exampleData)]))) \<le> 0"
  by (simp add: history_def storeProfile_profiles evictOldest_def ProfileStorage_def or_default_def)

subsection \<open>C4: expiration\<close>

text \<open>
  Claim C4, as the code has it. Let a record be stored for \<open>i\<close> at time \<open>t0\<close> in a store
  with time-to-live \<open>T\<close>, and let \<open>S\<close> be the state after any further calls.
  If \<open>T\<close> is at most 2147483647, no timer was pending for \<open>i\<close> before, and the calls,
  all made before \<open>t0 + T\<close>, are any calls that do not evict, delete or overwrite the
  record of \<open>i\<close> (stores, evictions and deletions of other records, reads, in-progress
  marks and timer callbacks included), then \<^verbatim>\<open>getProfile\<close> returns the record at every
  time \<open>t \<le> t0 + T\<close>: at every time before \<open>t0 + T\<close>, and also at \<open>t0 + T\<close> itself when
  the scheduled removal has not run by then. If \<open>i\<close> is not stored again, \<^verbatim>\<open>getProfile\<close> returns nothing at every time
  \<open>t > t0 + T\<close>, whatever the calls were: the check at read time does not depend on the
  timer, which is pending from the store on. \<^verbatim>\<open>getProfile\<close> returns nothing for an
  identifier without an entry, never stored or evicted. A configured time-to-live other than
  0 is the time-to-live of the store.
\<close>

theorem getProfile_expiration:
  fixes s :: state and t0 :: int and i :: ident and d :: profile_data
    and calls :: "(int \<times> call) list" and t' t ttl :: int and capacity :: "int option"
  defines "T \<equiv> profileTTL s"
    and "S \<equiv> history (storeProfile t0 i d s) calls"
  shows
    "(T \<le> 2147483647 \<and> (\<forall>h due. timers s h \<noteq> Some (due, i)) \<and>
      retained t' i (storeProfile t0 i d s) calls \<and> t' < t0 + T \<and> t \<le> t0 + T \<longrightarrow>
        fst (getProfile t i S) = Some d) \<and>
     (notStoredAgain i calls \<and> t0 + T < t \<longrightarrow> fst (getProfile t i S) = None) \<and>
     timers (storeProfile t0 i d s) (nextTimer s) = Some (t0 + timerDelay T, i) \<and>
     (Map_get i (profiles s) = None \<longrightarrow> fst (getProfile t i s) = None) \<and>
     (ttl \<noteq> 0 \<longrightarrow> profileTTL (history (ProfileStorage capacity (Some ttl)) calls) = ttl)"
proof (intro conjI impI)
  let ?s1 = "storeProfile t0 i d s"
  let ?e = "\<lparr> data = d, expiresAt = t0 + T, timeout = nextTimer s \<rparr>"
  have entry: "Map_get i (profiles ?s1) = Some ?e"
    by (simp add: storeProfile_entry T_def)
  show "timers ?s1 (nextTimer s) = Some (t0 + timerDelay T, i)"
    by (simp add: storeProfile_fields T_def)
  show "fst (getProfile t i s) = None" if "Map_get i (profiles s) = None"
    using that by (simp add: getProfile_def)
  show "profileTTL (history (ProfileStorage capacity (Some ttl)) calls) = ttl" if "ttl \<noteq> 0"
    using that by (simp add: history_fields ProfileStorage_def or_default_def)
  show "fst (getProfile t i S) = None" if a: "notStoredAgain i calls \<and> t0 + T < t"
  proof -
    from a history_entry [of i calls ?s1]
    have "Map_get i (profiles S) = None \<or> Map_get i (profiles S) = Some ?e"
      by (simp add: S_def entry)
    with a show ?thesis by (auto simp: getProfile_def)
  qed
  show "fst (getProfile t i S) = Some d"
    if a: "T \<le> 2147483647 \<and> (\<forall>h due. timers s h \<noteq> Some (due, i)) \<and>
      retained t' i (storeProfile t0 i d s) calls \<and> t' < t0 + T \<and> t \<le> t0 + T"
  proof -
    from a have live: "t' < expiresAt ?e" by simp
    from a have "t' < t0 + timerDelay T" by (simp add: timerDelay_def)
    with a have tm: "\<forall>h due. timers ?s1 h = Some (due, i) \<longrightarrow> t' < due"
      by (simp add: storeProfile_fields T_def)
    from a have u: "retained t' i ?s1 calls" by simp
    have "Map_get i (profiles S) = Some ?e"
      unfolding S_def by (rule retained_history [OF entry live tm u])
    with a show ?thesis by (simp add: getProfile_def)
  qed
qed

text \<open>
  Time-to-live 1000, capacity 3, stored at 0: returned at 999 after another record was
  stored and deleted, a read and an early timer callback; nothing at 1001; nothing for an
  identifier never stored.
\<close>

theorem getProfile_expiration_witness:
  "fst (getProfile 999 ''a'' (history (storeProfile 0 ''a'' exampleData (ProfileStorage (Some 3) (Some 1000)))
      [(1, StoreProfile ''b'' exampleData), (400, GetProfile ''a''),
       (500, DeleteProfile ''b''), (999, TimerFires 0)])) = Some exampleData \<and>
   fst (getProfile 1001 ''a'' (history (storeProfile 0 ''a'' exampleData (ProfileStorage (Some 3) (Some 1000)))
      [(1, StoreProfile ''b'' exampleData), (400, GetProfile ''a''),
       (500, DeleteProfile ''b''), (999, TimerFires 0)])) = None \<and>
   timers (storeProfile 0 ''a'' exampleData (ProfileStorage (Some 3) (Some 1000))) 0 = Some (1000, ''a'') \<and>
   fst (getProfile 5 ''b'' (ProfileStorage (Some 3) (Some 1000))) = None \<and>
   profileTTL (history (ProfileStorage (Some 3) (Some 1000))
      [(1, StoreProfile ''b'' exampleData), (400, GetProfile ''a''),
       (500, DeleteProfile ''b''), (999, TimerFires 0)]) = 1000"
proof -
  let ?s = "ProfileStorage (Some 3) (Some 1000)"
  let ?calls = "[(1, StoreProfile ''b'' exampleData), (400, GetProfile ''a''),
       (500, DeleteProfile ''b''), (999, TimerFires 0)]"
  have s: "profileTTL ?s = 1000" "nextTimer ?s = 0" "timers ?s = Map.empty" "profiles ?s = []"
    "maxProfiles ?s = 3"
    by (simp_all add: ProfileStorage_def or_default_def)
  have room: "\<not> evicts ''a'' (storeProfile 0 ''a'' exampleData ?s)"
    by (simp add: evicts_def storeProfile_profiles storeProfile_fields evictOldest_def s)
  have u: "retained 999 ''a'' (storeProfile 0 ''a'' exampleData ?s) ?calls"
    using room by simp
  have n: "notStoredAgain ''a'' ?calls"
    by (simp add: notStoredAgain_def)
  have fresh: "\<forall>h due. timers ?s h \<noteq> Some (due, ''a'')" by (simp add: s)
  have absent: "Map_get ''b'' (profiles ?s) = None" by (simp add: s Map_get_def)
  note live = getProfile_expiration [where s = ?s and ?t0.0 = 0 and i = "''a''" and d = exampleData and calls = ?calls
      and t' = 999 and t = 999 and ttl = 1000 and capacity = "Some 3"]
  note dead = getProfile_expiration [where s = ?s and ?t0.0 = 0 and i = "''a''" and d = exampleData and calls = ?calls
      and t' = 999 and t = 1001 and ttl = 1000 and capacity = "Some 3"]
  note other = getProfile_expiration [where s = ?s and ?t0.0 = 0 and i = "''b''" and d = exampleData and calls = ?calls
      and t' = 999 and t = 5 and ttl = 1000 and capacity = "Some 3"]
  have "fst (getProfile 999 ''a'' (history (storeProfile 0 ''a'' exampleData ?s) ?calls)) = Some exampleData"
    using live [THEN conjunct1] u fresh by (simp add: s)
  moreover have "fst (getProfile 1001 ''a'' (history (storeProfile 0 ''a'' exampleData ?s) ?calls)) = None"
    using dead [THEN conjunct2, THEN conjunct1] n by (simp add: s)
  moreover have "timers (storeProfile 0 ''a'' exampleData ?s) 0 = Some (1000, ''a'')"
    using live [THEN conjunct2, THEN conjunct2, THEN conjunct1] by (simp add: s timerDelay_def)
  moreover have "fst (getProfile 5 ''b'' ?s) = None"
    using other [THEN conjunct2, THEN conjunct2, THEN conjunct2, THEN conjunct1] absent by simp
  moreover have "profileTTL (history ?s ?calls) = 1000"
    using live [THEN conjunct2, THEN conjunct2, THEN conjunct2, THEN conjunct2] by simp
  ultimately show ?thesis by (intro conjI)
qed

text \<open>
  Claim C4 as stated has \<^verbatim>\<open>getProfile\<close> return nothing from \<open>t0 + T\<close> on. The read-time
  check is \<^verbatim>\<open>Date.now() > entry.expiresAt\<close>: at time 1000 exactly, with the timer not yet
  run, the record stored at 0 with time-to-live 1000 is still returned.
\<close>

theorem getProfile_expiration_counterexample:
  "fst (getProfile 1000 ''a'' (storeProfile 0 ''a'' exampleData (ProfileStorage (Some 3) (Some 1000))))
     = Some exampleData \<and>
   fst (getProfile 1000 ''a'' (storeProfile 0 ''a'' exampleData (ProfileStorage (Some 3) (Some 1000))))
     \<noteq> None"
  by (simp add: getProfile_def storeProfile_entry ProfileStorage_def or_default_def)

subsection \<open>C5: in progress or completed, never both\<close>

text \<open>
  Claim C5. In every run of the server in which \<^verbatim>\<open>generateId\<close> never returns the same
  identifier twice, no identifier is in the in-progress map and in the map of completed
  records at once, at any point of the run. In any state, an identifier is not in progress
  immediately after \<^verbatim>\<open>storeProfile\<close> was called for it. A poll of an identifier that is
  in neither map is answered with 404, not found or expired, and changes nothing.
\<close>

theorem one_map_per_identifier:
  "(distinct (generated evs) \<longrightarrow>
      \<not> (isInProgress i (storage (run cfg e (start opts t) evs)) \<and>
         Map_has i (profiles (storage (run cfg e (start opts t) evs))))) \<and>
   \<not> isInProgress i (storeProfile now i d s) \<and>
   (\<not> isInProgress i s \<and> \<not> Map_has i (profiles s) \<longrightarrow>
      handleResultPage cfg e now i s = (Respond 404 (ErrorPage NotFoundOrExpired 404), s))"
proof (intro conjI impI)
  assume "distinct (generated evs)"
  with consistent_run [OF consistent_start, of evs cfg e opts t]
  have "consistent (set (generated evs)) (run cfg e (start opts t) evs)" by simp
  then show "\<not> (isInProgress i (storage (run cfg e (start opts t) evs)) \<and>
         Map_has i (profiles (storage (run cfg e (start opts t) evs))))"
    unfolding consistent_def isInProgress_def by blast
next
  show "\<not> isInProgress i (storeProfile now i d s)"
    by (simp add: isInProgress_def storeProfile_inProgress)
next
  assume "\<not> isInProgress i s \<and> \<not> Map_has i (profiles s)"
  then show "handleResultPage cfg e now i s = (Respond 404 (ErrorPage NotFoundOrExpired 404), s)"
    by (simp add: handleResultPage_def getProfile_def Map_has_def sendError_def)
qed

text \<open>
  A session started at 0 and stored at 100 is completed and no longer in progress; an
  unknown identifier is answered with 404.
\<close>

theorem one_map_per_identifier_witness:
  "distinct (generated [Request ''/flamegraph'' None ''0a'', Passes 100,
       Settles ''0a'' (Some ''c'') (Some ''h'')]) \<and>
   \<not> (isInProgress ''0a'' (storage (run (createConfig testOptions) exampleEnv (start testOptions 0)
          [Request ''/flamegraph'' None ''0a'', Passes 100, Settles ''0a'' (Some ''c'') (Some ''h'')])) \<and>
      Map_has ''0a'' (profiles (storage (run (createConfig testOptions) exampleEnv (start testOptions 0)
          [Request ''/flamegraph'' None ''0a'', Passes 100, Settles ''0a'' (Some ''c'') (Some ''h'')])))) \<and>
   Map_has ''0a'' (profiles (storage (run (createConfig testOptions) exampleEnv (start testOptions 0)
          [Request ''/flamegraph'' None ''0a'', Passes 100, Settles ''0a'' (Some ''c'') (Some ''h'')]))) \<and>
   \<not> isInProgress ''0a'' (storeProfile 100 ''0a'' exampleData
        (markInProgress 0 ''0a'' 100 (createStorage testOptions))) \<and>
   \<not> isInProgress ''0b'' (createStorage testOptions) \<and>
   \<not> Map_has ''0b'' (profiles (createStorage testOptions)) \<and>
   handleResultPage (createConfig testOptions) exampleEnv 0 ''0b'' (createStorage testOptions)
     = (Respond 404 (ErrorPage NotFoundOrExpired 404), createStorage testOptions)"
proof -
  let ?cfg = "createConfig testOptions"
  let ?evs = "[Request ''/flamegraph'' None ''0a'', Passes 100, Settles ''0a'' (Some ''c'') (Some ''h'')]"
  let ?s0 = "createStorage testOptions"
  have d: "distinct (generated ?evs)" by simp
  have w1: "step ?cfg exampleEnv (start testOptions 0) (Request ''/flamegraph'' None ''0a'')
      = \<lparr> storage = markInProgress 0 ''0a'' 100 ?s0, clock = 0, collecting = [''0a''] \<rparr>"
    by (simp add: start_def flamegraphMiddleware_def handleStartProfiling_def queryDuration_def
        createConfig_def testOptions_def startsWith_def)
  have final: "storage (run ?cfg exampleEnv (start testOptions 0) ?evs)
      = storeProfile 100 ''0a'' \<lparr> cpu = ''c'', heap = ''h'' \<rparr> (markInProgress 0 ''0a'' 100 ?s0)"
    by (simp add: run_def w1 del: step.simps) (simp add: collectProfilesInBackground_def exampleEnv_def)
  have stored: "Map_has ''0a'' (profiles (storage (run ?cfg exampleEnv (start testOptions 0) ?evs)))"
    by (simp add: final Map_has_def storeProfile_entry)
  have neither: "\<not> isInProgress ''0b'' ?s0 \<and> \<not> Map_has ''0b'' (profiles ?s0)"
    by (simp add: isInProgress_def Map_has_def Map_get_def createStorage_def ProfileStorage_def)
  note inst = one_map_per_identifier [of ?evs "''0a''" ?cfg exampleEnv testOptions 0 100 exampleData
      "markInProgress 0 ''0a'' 100 ?s0"]
  note inst' = one_map_per_identifier [of ?evs "''0b''" ?cfg exampleEnv testOptions 0 0 exampleData ?s0]
  from inst [THEN conjunct1] d
  have a: "\<not> (isInProgress ''0a'' (storage (run ?cfg exampleEnv (start testOptions 0) ?evs)) \<and>
      Map_has ''0a'' (profiles (storage (run ?cfg exampleEnv (start testOptions 0) ?evs))))"
    by (rule mp)
  from inst [THEN conjunct2, THEN conjunct1]
  have b: "\<not> isInProgress ''0a'' (storeProfile 100 ''0a'' exampleData (markInProgress 0 ''0a'' 100 ?s0))" .
  from inst' [THEN conjunct2, THEN conjunct2] neither
  have c: "handleResultPage ?cfg exampleEnv 0 ''0b'' ?s0
     = (Respond 404 (ErrorPage NotFoundOrExpired 404), ?s0)"
    by (rule mp)
  from d a stored b neither c show ?thesis by (intro conjI) simp_all
qed

subsection \<open>C6: the duration of a start request\<close>



subsection \<open>C7: polling an identifier\<close>

text \<open>
  Claim C7. For a poll of the identifier \<open>i\<close> at time \<open>now\<close>: if \<open>i\<close> is in progress with
  metadata \<open>m\<close> and the duration minus the elapsed time is positive, the response is 200
  with the progress page showing that remaining time; if \<open>i\<close> is in progress and the
  remaining time is 0 or less, the response is 202; otherwise, if \<^verbatim>\<open>getProfile\<close>
  returns a completed record, the response is 200 with the results page that the renderer
  produced from it; and if \<^verbatim>\<open>getProfile\<close> returns nothing, the response is 404.
\<close>

theorem poll_responses:
  "(getInProgressMetadata i s = Some m \<and> 0 < duration m - (now - startTime m) \<longrightarrow>
      handleResultPage cfg e now i s
        = (Respond 200 (ProgressPage i (duration m - (now - startTime m)) (basePath cfg)), s)) \<and>
   (getInProgressMetadata i s = Some m \<and> duration m - (now - startTime m) \<le> 0 \<longrightarrow>
      handleResultPage cfg e now i s = (Respond 202 (ErrorPage BeingProcessed 202), s)) \<and>
   (\<not> isInProgress i s \<and> fst (getProfile now i s) = Some profileData \<and>
    generateResultsPage e profileData = Some html \<longrightarrow>
      fst (handleResultPage cfg e now i s) = Respond 200 (ResultsPage html)) \<and>
   (\<not> isInProgress i s \<and> fst (getProfile now i s) = None \<longrightarrow>
      fst (handleResultPage cfg e now i s) = Respond 404 (ErrorPage NotFoundOrExpired 404))"
  by (auto simp: handleResultPage_def isInProgress_def getInProgressMetadata_def Map_has_def
      sendError_def Let_def split: prod.splits option.splits)

text \<open>
  A session of 100 ms started at time 0: polled at 40 it has 60 ms left, polled at 100 it is
  being processed; once stored, it is rendered, and another identifier is not found.
\<close>

theorem poll_responses_witness:
  "handleResultPage (createConfig testOptions) exampleEnv 40 ''0a''
       (markInProgress 0 ''0a'' 100 (createStorage testOptions))
     = (Respond 200 (ProgressPage ''0a'' 60 ''/flamegraph''),
        markInProgress 0 ''0a'' 100 (createStorage testOptions)) \<and>
   handleResultPage (createConfig testOptions) exampleEnv 100 ''0a''
       (markInProgress 0 ''0a'' 100 (createStorage testOptions))
     = (Respond 202 (ErrorPage BeingProcessed 202),
        markInProgress 0 ''0a'' 100 (createStorage testOptions)) \<and>
   fst (handleResultPage (createConfig testOptions) exampleEnv 150 ''0a''
       (storeProfile 120 ''0a'' exampleData (markInProgress 0 ''0a'' 100 (createStorage testOptions))))
     = Respond 200 (ResultsPage ''cpuheap'') \<and>
   fst (handleResultPage (createConfig testOptions) exampleEnv 150 ''0b''
       (storeProfile 120 ''0a'' exampleData (markInProgress 0 ''0a'' 100 (createStorage testOptions))))
     = Respond 404 (ErrorPage NotFoundOrExpired 404)"
proof -
  let ?cfg = "createConfig testOptions"
  let ?s1 = "markInProgress 0 ''0a'' 100 (createStorage testOptions)"
  let ?s2 = "storeProfile 120 ''0a'' exampleData ?s1"
  let ?m = "\<lparr> duration = 100, startTime = 0 \<rparr>"
  have cfg: "basePath ?cfg = ''/flamegraph''"
    by (simp add: createConfig_def testOptions_def)
  have m: "getInProgressMetadata ''0a'' ?s1 = Some ?m"
    by (simp add: getInProgressMetadata_def markInProgress_def Map_get_Map_set)
  have idle: "\<not> isInProgress ''0a'' ?s2" "\<not> isInProgress ''0b'' ?s2"
    by (simp_all add: isInProgress_def Map_has_def storeProfile_fields Map_get_Map_delete
        markInProgress_def Map_get_Map_set createStorage_def ProfileStorage_def)
      (simp add: Map_get_def)
  have stored: "fst (getProfile 150 ''0a'' ?s2) = Some exampleData"
    by (simp add: getProfile_def storeProfile_entry markInProgress_def createStorage_def
        ProfileStorage_def or_default_def testOptions_def)
  have unknown: "fst (getProfile 150 ''0b'' ?s2) = None"
    by (simp add: eval_defs)
  have page: "generateResultsPage exampleEnv exampleData = Some ''cpuheap''"
    by (simp add: exampleEnv_def exampleData_def)
  have "handleResultPage ?cfg exampleEnv 40 ''0a'' ?s1
     = (Respond 200 (ProgressPage ''0a'' 60 ''/flamegraph''), ?s1)"
    using poll_responses [of "''0a''" ?s1 ?m 40 ?cfg exampleEnv, THEN conjunct1] m
    by (simp add: cfg)
  moreover have "handleResultPage ?cfg exampleEnv 100 ''0a'' ?s1
     = (Respond 202 (ErrorPage BeingProcessed 202), ?s1)"
    using poll_responses [of "''0a''" ?s1 ?m 100 ?cfg exampleEnv, THEN conjunct2, THEN conjunct1] m
    by simp
  moreover have "fst (handleResultPage ?cfg exampleEnv 150 ''0a'' ?s2)
     = Respond 200 (ResultsPage ''cpuheap'')"
    using poll_responses [of "''0a''" ?s2 _ 150 ?cfg exampleEnv exampleData "''cpuheap''",
        THEN conjunct2, THEN conjunct2, THEN conjunct1] idle(1) stored page
    by simp
  moreover have "fst (handleResultPage ?cfg exampleEnv 150 ''0b'' ?s2)
     = Respond 404 (ErrorPage NotFoundOrExpired 404)"
    using poll_responses [of "''0b''" ?s2 _ 150 ?cfg exampleEnv,
        THEN conjunct2, THEN conjunct2, THEN conjunct2] idle(2) unknown
    by simp
  ultimately show ?thesis by (intro conjI)
qed


subsection \<open>C8: a collection that fails\<close>

text \<open>
  Claim C8. When the CPU collection, the heap collection or an encoding throws,
  \<^verbatim>\<open>collectProfilesInBackground\<close> returns the store as it was: \<^verbatim>\<open>storeProfile\<close> is not
  called and nothing else changes. In a run of the server in which \<^verbatim>\<open>generateId\<close> never
  returns the same identifier twice, let the collection of session \<open>i\<close> be outstanding in
  the state \<open>W\<close> and settle with a failure. Then the store is unchanged by the failure, and
  after any further events \<open>i\<close> is still in progress, has no completed record, and has no
  collection outstanding that could store one.
\<close>

theorem failed_collection_stays_in_progress:
  fixes cfg :: config and e :: env and opts :: options and t :: int
    and evs1 evs2 :: "event list" and i :: ident and c h :: "profile option"
  defines "W \<equiv> run cfg e (start opts t) evs1"
  shows
    "(collectionFails e c h \<longrightarrow> collectProfilesInBackground e now i c h s = s) \<and>
     (distinct (generated (evs1 @ evs2)) \<and> i \<in> set (collecting W) \<and> collectionFails e c h \<longrightarrow>
        storage (step cfg e W (Settles i c h)) = storage W \<and>
        isInProgress i (storage (run cfg e (step cfg e W (Settles i c h)) evs2)) \<and>
        Map_get i (profiles (storage (run cfg e (step cfg e W (Settles i c h)) evs2))) = None \<and>
        i \<notin> set (collecting (run cfg e (step cfg e W (Settles i c h)) evs2)))"
proof (intro conjI impI)
  show "collectProfilesInBackground e now i c h s = s" if "collectionFails e c h"
    using that by (rule collectProfilesInBackground_fails)
next
  assume a: "distinct (generated (evs1 @ evs2)) \<and> i \<in> set (collecting W) \<and> collectionFails e c h"
  let ?W' = "step cfg e W (Settles i c h)"
  from a have d1: "distinct (generated evs1)" and d2: "distinct (generated evs2)"
    and disj: "set (generated evs1) \<inter> set (generated evs2) = {}"
    by (simp_all add: generated_append)
  from consistent_run [OF consistent_start, of evs1 cfg e opts t] d1
  have con: "consistent (set (generated evs1)) W" by (simp add: W_def)
  from a have i: "i \<in> set (collecting W)" and f: "collectionFails e c h" by simp_all
  from con i have iU: "i \<in> set (generated evs1)"
    and ip: "Map_has i (inProgress (storage W))" and np: "\<not> Map_has i (profiles (storage W))"
    and dc: "distinct (collecting W)"
    unfolding consistent_def by blast+
  show same: "storage ?W' = storage W"
    using i by (simp add: collectProfilesInBackground_fails [OF f])
  from dc have "i \<notin> set (remove1 i (collecting W))" by simp
  with i ip np same have "stuck i ?W'"
    by (simp add: stuck_def collectProfilesInBackground_fails [OF f])
  moreover from iU disj have "i \<notin> set (generated evs2)" by blast
  ultimately have st: "stuck i (run cfg e ?W' evs2)" by (rule stuck_run)
  then show "isInProgress i (storage (run cfg e ?W' evs2))"
    by (simp add: stuck_def isInProgress_def)
  from st show "Map_get i (profiles (storage (run cfg e ?W' evs2))) = None"
    by (simp add: stuck_def Map_has_def)
  from st show "i \<notin> set (collecting (run cfg e ?W' evs2))"
    by (simp add: stuck_def)
qed

text \<open>
  The CPU collection of session \<open>0a\<close> throws; after a poll, a later session that
  completes, and 200 ms, \<open>0a\<close> is still in progress without a completed record.
\<close>

theorem failed_collection_stays_in_progress_witness:
  "distinct (generated ([Request ''/flamegraph'' None ''0a''] @
      [Passes 100, Request ''/flamegraph/result/0a'' None ''0b'', Request ''/flamegraph'' None ''0c'',
       Passes 100, Settles ''0c'' (Some ''c'') (Some ''h'')])) \<and>
   ''0a'' \<in> set (collecting (run (createConfig testOptions) exampleEnv (start testOptions 0)
      [Request ''/flamegraph'' None ''0a''])) \<and>
   collectionFails exampleEnv None (Some ''h'') \<and>
   isInProgress ''0a'' (storage (run (createConfig testOptions) exampleEnv
      (step (createConfig testOptions) exampleEnv
         (run (createConfig testOptions) exampleEnv (start testOptions 0)
            [Request ''/flamegraph'' None ''0a''])
         (Settles ''0a'' None (Some ''h'')))
      [Passes 100, Request ''/flamegraph/result/0a'' None ''0b'', Request ''/flamegraph'' None ''0c'',
       Passes 100, Settles ''0c'' (Some ''c'') (Some ''h'')])) \<and>
   Map_get ''0a'' (profiles (storage (run (createConfig testOptions) exampleEnv
      (step (createConfig testOptions) exampleEnv
         (run (createConfig testOptions) exampleEnv (start testOptions 0)
            [Request ''/flamegraph'' None ''0a''])
         (Settles ''0a'' None (Some ''h'')))
      [Passes 100, Request ''/flamegraph/result/0a'' None ''0b'', Request ''/flamegraph'' None ''0c'',
       Passes 100, Settles ''0c'' (Some ''c'') (Some ''h'')]))) = None"
proof -
  let ?cfg = "createConfig testOptions"
  let ?evs1 = "[Request ''/flamegraph'' None ''0a'']"
  let ?evs2 = "[Passes 100, Request ''/flamegraph/result/0a'' None ''0b'',
       Request ''/flamegraph'' None ''0c'', Passes 100, Settles ''0c'' (Some ''c'') (Some ''h'')]"
  have d: "distinct (generated (?evs1 @ ?evs2))" by simp
  have w1: "run ?cfg exampleEnv (start testOptions 0) ?evs1
      = \<lparr> storage = markInProgress 0 ''0a'' 100 (createStorage testOptions), clock = 0,
          collecting = [''0a''] \<rparr>"
    by (simp add: run_def start_def flamegraphMiddleware_def handleStartProfiling_def
        queryDuration_def createConfig_def testOptions_def startsWith_def)
  have i: "''0a'' \<in> set (collecting (run ?cfg exampleEnv (start testOptions 0) ?evs1))"
    by (simp add: w1)
  have f: "collectionFails exampleEnv None (Some ''h'')"
    by (simp add: collectionFails_def)
  from failed_collection_stays_in_progress [of exampleEnv None "Some ''h''" 0 "''0a''"
      "createStorage testOptions" ?evs1 ?evs2 ?cfg testOptions 0, THEN conjunct2] d i f
  have "isInProgress ''0a'' (storage (run ?cfg exampleEnv
      (step ?cfg exampleEnv (run ?cfg exampleEnv (start testOptions 0) ?evs1)
         (Settles ''0a'' None (Some ''h''))) ?evs2)) \<and>
    Map_get ''0a'' (profiles (storage (run ?cfg exampleEnv
      (step ?cfg exampleEnv (run ?cfg exampleEnv (start testOptions 0) ?evs1)
         (Settles ''0a'' None (Some ''h''))) ?evs2))) = None"
    by blast
  with d i f show ?thesis by (intro conjI) simp_all
qed

subsection \<open>C9: the timers after cleanup\<close>

text \<open>
  Claim C9 asks that after \<^verbatim>\<open>cleanup\<close> every pending scheduled removal has been
  cancelled. \<^verbatim>\<open>cleanup\<close> cancels the timers of the records that are in the map when
  it runs. After the eviction above the timer of \<open>a\<close> belongs to no record of the map, and
  \<^verbatim>\<open>cleanup\<close> leaves it pending: both maps are empty and timer 0 is still due at 1000.
\<close>

theorem cleanup_leaves_timer_pending:
  "profiles (cleanup (storeProfile 0 ''b'' exampleData
       (storeProfile 0 ''a'' exampleData (ProfileStorage (Some 1) (Some 1000))))) = [] \<and>
   inProgress (cleanup (storeProfile 0 ''b'' exampleData
       (storeProfile 0 ''a'' exampleData (ProfileStorage (Some 1) (Some 1000))))) = [] \<and>
   timers (cleanup (storeProfile 0 ''b'' exampleData
       (storeProfile 0 ''a'' exampleData (ProfileStorage (Some 1) (Some 1000))))) 0 = Some (1000, ''a'')"
  by (simp add: eval_defs)

subsection \<open>C10: storing an identifier a second time\<close>

text \<open>
  Claim C10. Let \<^verbatim>\<open>storeProfile\<close> be called for the identifier \<open>i\<close> at time \<open>t0\<close> and
  again at time \<open>t1\<close>, from any state \<open>s\<close>. After the second call the timer of the first
  call is still pending, targeting \<open>i\<close>, while the map entry of \<open>i\<close> is the second
  record, which expires at \<open>t1\<close> plus the time-to-live and holds the handle of the second
  timer. For a time-to-live that \<^verbatim>\<open>setTimeout\<close> takes as it is, the first timer is
  due exactly at the expiration time of the first record. When it fires, at any time from
  then on, it deletes the entry of \<open>i\<close>, and \<^verbatim>\<open>getProfile\<close> returns nothing for \<open>i\<close>,
  whether or not the second record's own time-to-live has elapsed.
\<close>

theorem restore_keeps_first_timer:
  "timers (storeProfile t1 i d2 (storeProfile t0 i d1 s)) (nextTimer s)
     = Some (t0 + timerDelay (profileTTL s), i) \<and>
   Map_get i (profiles (storeProfile t1 i d2 (storeProfile t0 i d1 s)))
     = Some \<lparr> data = d2, expiresAt = t1 + profileTTL s, timeout = Suc (nextTimer s) \<rparr> \<and>
   (1 \<le> profileTTL s \<and> profileTTL s \<le> 2147483647 \<longrightarrow>
      Map_get i (profiles (storeProfile t0 i d1 s))
        = Some \<lparr> data = d1, expiresAt = t0 + timerDelay (profileTTL s), timeout = nextTimer s \<rparr>) \<and>
   (t0 + timerDelay (profileTTL s) \<le> t \<longrightarrow>
      Map_get i (profiles (fireTimer t (nextTimer s) (storeProfile t1 i d2 (storeProfile t0 i d1 s)))) = None \<and>
      fst (getProfile t i (fireTimer t (nextTimer s) (storeProfile t1 i d2 (storeProfile t0 i d1 s)))) = None)"
proof (intro conjI impI)
  let ?s2 = "storeProfile t1 i d2 (storeProfile t0 i d1 s)"
  show pending: "timers ?s2 (nextTimer s) = Some (t0 + timerDelay (profileTTL s), i)"
    by (simp add: storeProfile_fields)
  show "Map_get i (profiles ?s2)
     = Some \<lparr> data = d2, expiresAt = t1 + profileTTL s, timeout = Suc (nextTimer s) \<rparr>"
    by (simp add: storeProfile_entry storeProfile_fields)
  show "Map_get i (profiles (storeProfile t0 i d1 s))
        = Some \<lparr> data = d1, expiresAt = t0 + timerDelay (profileTTL s), timeout = nextTimer s \<rparr>"
    if "1 \<le> profileTTL s \<and> profileTTL s \<le> 2147483647"
    using that by (simp add: storeProfile_entry timerDelay_def)
  assume due: "t0 + timerDelay (profileTTL s) \<le> t"
  show gone: "Map_get i (profiles (fireTimer t (nextTimer s) ?s2)) = None"
    using due pending by (simp add: fireTimer_def Map_get_Map_delete)
  then show "fst (getProfile t i (fireTimer t (nextTimer s) ?s2)) = None"
    by (simp add: getProfile_def)
qed

text \<open>
  Time-to-live 1000, stores at 0 and 500: read at 1000, the second record is there as long
  as the first timer has not fired, and gone once it has, 500 ms before its own expiration.
\<close>

theorem restore_keeps_first_timer_witness:
  "fst (getProfile 1000 ''a'' (fireTimer 1000 0
     (storeProfile 500 ''a'' exampleData (storeProfile 0 ''a'' exampleData
        (ProfileStorage (Some 3) (Some 1000)))))) = None \<and>
   fst (getProfile 1000 ''a''
     (storeProfile 500 ''a'' exampleData (storeProfile 0 ''a'' exampleData
        (ProfileStorage (Some 3) (Some 1000))))) = Some exampleData"
proof -
  let ?s = "ProfileStorage (Some 3) (Some 1000)"
  have s: "nextTimer ?s = 0" "profileTTL ?s = 1000"
    by (simp_all add: ProfileStorage_def or_default_def)
  have "(0::int) + timerDelay (profileTTL ?s) \<le> 1000"
    by (simp add: s timerDelay_def)
  then have "fst (getProfile 1000 ''a'' (fireTimer 1000 (nextTimer ?s)
     (storeProfile 500 ''a'' exampleData (storeProfile 0 ''a'' exampleData ?s)))) = None"
    using restore_keeps_first_timer [of 500 "''a''" exampleData 0 exampleData ?s 1000] by blast
  moreover have "fst (getProfile 1000 ''a''
     (storeProfile 500 ''a'' exampleData (storeProfile 0 ''a'' exampleData ?s))) = Some exampleData"
    by (simp add: getProfile_def storeProfile_entry storeProfile_fields s)
  ultimately show ?thesis by (simp add: s)
qed

end
